theory Spec2Isabelle
  imports Main
begin

section \<open>JavaScript strings\<close>

text \<open>
  A JavaScript string is modelled as a HOL \<open>string\<close>: a list of code units, here the
  code units below 256.  The source functions are embedded under their own names; a
  name ending in \<open>_index_ts\<close> is the function of that name in \<^verbatim>\<open>src/src/index.ts\<close>,
  every other one is taken from the plugin module in \<^verbatim>\<open>src/unnamed/part_000\<close> (the module
  that starts at line 299 of that file).
\<close>

definition backslash :: char where
  "backslash = CHR 0x5C"

definition newline :: char where
  "newline = CHR 0x0A"

text \<open>\<^verbatim>\<open>s.endsWith(t)\<close> and \<^verbatim>\<open>s.startsWith(t)\<close>.\<close>

definition endsWith :: "string \<Rightarrow> string \<Rightarrow> bool" where
  "endsWith s t = (length t \<le> length s \<and> drop (length s - length t) s = t)"

definition startsWith :: "string \<Rightarrow> string \<Rightarrow> bool" where
  "startsWith s t = (take (length t) s = t)"

text \<open>\<^verbatim>\<open>a || b\<close> on strings: the empty string is the only falsy one.\<close>

definition orElse :: "string \<Rightarrow> string \<Rightarrow> string" where
  "orElse a b = (if a = [] then b else a)"

text \<open>\<^verbatim>\<open>s.replace(/^\//, '')\<close>: one leading slash is removed, if there is one.\<close>

definition stripLeadingSlash :: "string \<Rightarrow> string" where
  "stripLeadingSlash s = (case s of [] \<Rightarrow> [] | c # cs \<Rightarrow> if c = CHR ''/'' then cs else s)"

text \<open>\<^verbatim>\<open>s.replace(/\/+$/, '')\<close>: every trailing slash is removed.\<close>

definition stripTrailingSlashes :: "string \<Rightarrow> string" where
  "stripTrailingSlashes s = rev (dropWhile (\<lambda>c. c = CHR ''/'') (rev s))"

text \<open>\<^verbatim>\<open>xs.join(sep)\<close>.\<close>

fun joinWith :: "string \<Rightarrow> string list \<Rightarrow> string" where
  "joinWith sep [] = []"
| "joinWith sep [x] = x"
| "joinWith sep (x # y # ys) = x @ sep @ joinWith sep (y # ys)"

text \<open>
  \<^verbatim>\<open>s.split(c)\<close> for a one-character separator, generalised to a class of separator
  characters: the pieces between the separators, empty pieces included.
\<close>

fun splitOn :: "(char \<Rightarrow> bool) \<Rightarrow> string \<Rightarrow> string list" where
  "splitOn isSep [] = [[]]"
| "splitOn isSep (c # cs) =
     (if isSep c then [] # splitOn isSep cs
      else (case splitOn isSep cs of [] \<Rightarrow> [[c]] | p # ps \<Rightarrow> (c # p) # ps))"

section \<open>Path and URL utilities\<close>

text \<open>\<^verbatim>\<open>toPosix\<close>: \<^verbatim>\<open>p.replace(/\\/g, '/')\<close>.\<close>

definition toPosix :: "string \<Rightarrow> string" where
  "toPosix p = map (\<lambda>c. if c = backslash then CHR ''/'' else c) p"

definition withTrailingSlash :: "string \<Rightarrow> string" where
  "withTrailingSlash base = (if endsWith base ''/'' then base else base @ ''/'')"

definition buildScriptSrc :: "string \<Rightarrow> bool \<Rightarrow> string \<Rightarrow> string" where
  "buildScriptSrc entryPosix isDev base =
     (if \<not> isDev then entryPosix
      else withTrailingSlash (orElse base ''/'') @ stripLeadingSlash entryPosix)"

text \<open>
  The reading of ``the base path normalized to end with exactly one separator'' that the
  specification's sentence on \<^verbatim>\<open>buildScriptSrc\<close> gives: whatever separators end the base
  are replaced by a single one.
\<close>

definition endWithExactlyOneSlash :: "string \<Rightarrow> string" where
  "endWithExactlyOneSlash base = stripTrailingSlashes base @ ''/''"

section \<open>Regular expressions\<close>

text \<open>
  The fragment of JavaScript regular expressions that the plugin uses: character classes,
  sequence, alternative and repetition, all under the \<^verbatim>\<open>i\<close> flag.  \<open>canonicalize\<close> is the
  case folding of the \<^verbatim>\<open>i\<close> flag without the \<^verbatim>\<open>u\<close> flag: the code unit of the upper-case
  letter, where that is a single code unit.
\<close>

definition canonicalize :: "char \<Rightarrow> nat" where
  "canonicalize c =
     (let n = of_char c :: nat in
      if 97 \<le> n \<and> n \<le> 122 then n - 32
      else if 224 \<le> n \<and> n \<le> 254 \<and> n \<noteq> 247 then n - 32
      else if n = 255 then 376
      else if n = 181 then 924
      else n)"

datatype cclass =
    Lit char
  | OneOf "char list"
  | NoneOf "char list"
  | Space

fun cmatch :: "cclass \<Rightarrow> char \<Rightarrow> bool" where
  "cmatch (Lit a) c = (canonicalize c = canonicalize a)"
| "cmatch (OneOf as) c = (canonicalize c \<in> set (map canonicalize as))"
| "cmatch (NoneOf as) c = (canonicalize c \<notin> set (map canonicalize as))"
| "cmatch Space c = ((of_char c :: nat) \<in> set [9, 10, 11, 12, 13, 32, 160])"

datatype rx =
    NoMatch
  | Eps
  | Ch cclass
  | Seq rx rx
  | Alt rx rx
  | Star rx

text \<open>The strings a regular expression matches as a whole.\<close>

inductive matches :: "rx \<Rightarrow> string \<Rightarrow> bool" where
  m_Eps: "matches Eps []"
| m_Ch: "cmatch k c \<Longrightarrow> matches (Ch k) [c]"
| m_Seq: "matches r u \<Longrightarrow> matches s v \<Longrightarrow> matches (Seq r s) (u @ v)"
| m_AltL: "matches r u \<Longrightarrow> matches (Alt r s) u"
| m_AltR: "matches s u \<Longrightarrow> matches (Alt r s) u"
| m_StarNil: "matches (Star r) []"
| m_StarStep: "matches r u \<Longrightarrow> matches (Star r) v \<Longrightarrow> matches (Star r) (u @ v)"

text \<open>The executable matcher: derivatives, with the dead branches pruned.\<close>

fun nullable :: "rx \<Rightarrow> bool" where
  "nullable NoMatch = False"
| "nullable Eps = True"
| "nullable (Ch k) = False"
| "nullable (Seq r s) = (nullable r \<and> nullable s)"
| "nullable (Alt r s) = (nullable r \<or> nullable s)"
| "nullable (Star r) = True"

fun seq :: "rx \<Rightarrow> rx \<Rightarrow> rx" where
  "seq NoMatch s = NoMatch"
| "seq Eps s = s"
| "seq r s = Seq r s"

fun alt :: "rx \<Rightarrow> rx \<Rightarrow> rx" where
  "alt NoMatch s = s"
| "alt r NoMatch = r"
| "alt r s = Alt r s"

fun deriv :: "char \<Rightarrow> rx \<Rightarrow> rx" where
  "deriv c NoMatch = NoMatch"
| "deriv c Eps = NoMatch"
| "deriv c (Ch k) = (if cmatch k c then Eps else NoMatch)"
| "deriv c (Seq r s) =
     (if nullable r then alt (seq (deriv c r) s) (deriv c s) else seq (deriv c r) s)"
| "deriv c (Alt r s) = alt (deriv c r) (deriv c s)"
| "deriv c (Star r) = seq (deriv c r) (Star r)"

fun isNoMatch :: "rx \<Rightarrow> bool" where
  "isNoMatch NoMatch = True"
| "isNoMatch r = False"

text \<open>Some prefix of the string matches.\<close>

fun matchesPrefix :: "rx \<Rightarrow> string \<Rightarrow> bool" where
  "matchesPrefix r [] = nullable r"
| "matchesPrefix r (c # cs) =
     (if isNoMatch r then False else nullable r \<or> matchesPrefix (deriv c r) cs)"

text \<open>\<^verbatim>\<open>re.test(s)\<close> for a regular expression without the \<^verbatim>\<open>g\<close> and \<^verbatim>\<open>y\<close> flags: some
  substring matches.\<close>

fun regexTest :: "rx \<Rightarrow> string \<Rightarrow> bool" where
  "regexTest r [] = nullable r"
| "regexTest r (c # cs) = (matchesPrefix r (c # cs) \<or> regexTest r cs)"

text \<open>A literal text in front of a regular expression.\<close>

fun lits :: "string \<Rightarrow> rx \<Rightarrow> rx" where
  "lits [] k = k"
| "lits (c # cs) k = Seq (Ch (Lit c)) (lits cs k)"

text \<open>
  \<^verbatim>\<open>escapeRegExp\<close>: \<^verbatim>\<open>s.replace(/[.*+?^${}()|[\]\\]/g, '\\$&')\<close> puts a backslash in front of
  every syntax character.
\<close>

definition syntaxCharacters :: "char list" where
  "syntaxCharacters = ''.*+?^${}()|[]'' @ [backslash]"

definition escapeRegExp :: "string \<Rightarrow> string" where
  "escapeRegExp s =
     concat (map (\<lambda>c. if c \<in> set syntaxCharacters then [backslash, c] else [c]) s)"

text \<open>
  The pattern text that \<^verbatim>\<open>escapeRegExp\<close> returns is read back as \<^verbatim>\<open>new RegExp\<close> reads it:
  an ordinary character stands for itself, a backslash makes the syntax character post
  it stand for itself; a bare syntax character is outside this fragment (\<open>None\<close>).
\<close>

fun parseLiteralPattern :: "string \<Rightarrow> rx \<Rightarrow> rx option" where
  "parseLiteralPattern [] k = Some k"
| "parseLiteralPattern [c] k =
     (if c \<in> set syntaxCharacters then None else Some (Seq (Ch (Lit c)) k))"
| "parseLiteralPattern (c # d # ds) k =
     (if c = backslash then
        (if d \<in> set syntaxCharacters
         then map_option (Seq (Ch (Lit d))) (parseLiteralPattern ds k) else None)
      else if c \<in> set syntaxCharacters then None
      else map_option (Seq (Ch (Lit c))) (parseLiteralPattern (d # ds) k))"

section \<open>Template cache and script injector\<close>

definition templateFallback :: string where
  \<open>templateFallback =
     ''<!doctype html>'' @ [newline] @
     ''<html>'' @ [newline] @
     ''  <head>'' @ [newline] @
     ''    <meta charset="utf-8" />'' @ [newline] @
     ''    <meta name="viewport" content="width=device-width, initial-scale=1" />'' @ [newline] @
     ''    <title>Vite MPA</title>'' @ [newline] @
     ''  </head>'' @ [newline] @
     ''  <body>'' @ [newline] @
     ''    <div id="app"></div>'' @ [newline] @
     ''  </body>'' @ [newline] @
     ''</html>''\<close>

definition PLUGIN_NAME :: string where
  "PLUGIN_NAME = ''vite-plugin-mpa''"

record Page =
  name :: string
  entry :: string
  template :: string

text \<open>
  What \<^verbatim>\<open>existsSync\<close> and \<^verbatim>\<open>readFileSync\<close> find at a path: nothing, something that cannot
  be read as a file (a directory, a file without read permission), or a file's text.
\<close>

datatype file_state = Missing | Unreadable | Content string

type_synonym file_system = "string \<Rightarrow> file_state"

definition existsSync :: "file_system \<Rightarrow> string \<Rightarrow> bool" where
  "existsSync fs p = (fs p \<noteq> Missing)"

text \<open>
  The two module-level caches, and the messages the development server's logger has
  received (the effect of the \<^verbatim>\<open>onError\<close> callback the development plugin passes).
\<close>

record state =
  templateContentCache :: "string \<rightharpoonup> string"
  entryContentCache :: "string \<rightharpoonup> string"
  logged :: "string list"

text \<open>
  The \<^verbatim>\<open>onError\<close> callbacks the plugin passes: the development plugin's logs the message
  and returns; the build plugin passes the bundler's \<^verbatim>\<open>this.error\<close>, which raises.
  \<open>None\<close> is a call without the optional argument.
\<close>

datatype callback = Logger | Raiser

datatype js_error = PluginError string | TypeError | FsError

definition readFailureMessage :: "string \<Rightarrow> string" where
  "readFailureMessage templatePath =
     ''['' @ PLUGIN_NAME @ ''] Failed to read template: '' @ templatePath"

definition readTemplateWithCache ::
  "file_system \<Rightarrow> string \<Rightarrow> callback option \<Rightarrow> state \<Rightarrow> (js_error + string) \<times> state" where
  "readTemplateWithCache fs templatePath onError s =
     (if templatePath = [] then (Inr templateFallback, s)
      else
        (case templateContentCache s templatePath of
           Some (c # cs) \<Rightarrow> (Inr (c # cs), s)
         | _ \<Rightarrow>
            (let store = (\<lambda>html s'.
                   (Inr (orElse html templateFallback),
                    s'\<lparr>templateContentCache :=
                         (templateContentCache s')(templatePath \<mapsto> orElse html templateFallback)\<rparr>))
             in
               (case fs templatePath of
                  Missing \<Rightarrow> store [] s
                | Content text \<Rightarrow> store text s
                | Unreadable \<Rightarrow>
                    (case onError of
                       None \<Rightarrow> store [] s
                     | Some Logger \<Rightarrow>
                         store [] (s\<lparr>logged := logged s @ [readFailureMessage templatePath]\<rparr>)
                     | Some Raiser \<Rightarrow>
                         (Inl (PluginError (readFailureMessage templatePath)), s))))))"

text \<open>
  \<^verbatim>\<open>isScriptAlreadyInjected\<close>: the regular expression
  \<^verbatim>\<open><script\s+[^>]*type=["']module["'][^>]*src=["']SRC["'][^>]*>\s*</script>\<close> with the
  \<^verbatim>\<open>i\<close> flag, where \<^verbatim>\<open>SRC\<close> is the escaped script source.
\<close>

definition quoteChar :: rx where
  "quoteChar = Ch (OneOf [CHR 0x22, CHR 0x27])"

definition notGt :: rx where
  "notGt = Star (Ch (NoneOf ''>''))"

definition patternTail :: rx where
  "patternTail =
     Seq quoteChar (Seq notGt (lits ''>'' (Seq (Star (Ch Space)) (lits ''</script>'' Eps))))"

definition patternHead :: "rx \<Rightarrow> rx" where
  "patternHead src =
     lits ''<script'' (Seq (Ch Space) (Seq (Star (Ch Space)) (Seq notGt
       (lits ''type='' (Seq quoteChar (lits ''module'' (Seq quoteChar (Seq notGt
         (lits ''src='' (Seq quoteChar src))))))))))"

definition injectedPattern :: "string \<Rightarrow> rx option" where
  "injectedPattern scriptSrc =
     map_option patternHead (parseLiteralPattern (escapeRegExp scriptSrc) patternTail)"

text \<open>A pattern outside the fragment (\<open>None\<close>) would be a \<^verbatim>\<open>SyntaxError\<close> of \<^verbatim>\<open>new RegExp\<close>;
  \<open>injectedPattern_total\<close> below shows that there is none.\<close>

definition isScriptAlreadyInjected :: "string \<Rightarrow> string \<Rightarrow> bool" where
  "isScriptAlreadyInjected html scriptSrc =
     (case injectedPattern scriptSrc of None \<Rightarrow> False | Some re \<Rightarrow> regexTest re html)"

text \<open>
  The first match of a literal text under the \<^verbatim>\<open>i\<close> flag: the text before the match, the
  matched text and the text after it.
\<close>

fun ciPrefix :: "string \<Rightarrow> string \<Rightarrow> bool" where
  "ciPrefix [] s = True"
| "ciPrefix (p # ps) [] = False"
| "ciPrefix (p # ps) (c # cs) = (canonicalize c = canonicalize p \<and> ciPrefix ps cs)"

fun firstMatchCI :: "string \<Rightarrow> string \<Rightarrow> (string \<times> string \<times> string) option" where
  "firstMatchCI lit [] = (if lit = [] then Some ([], [], []) else None)"
| "firstMatchCI lit (c # cs) =
     (if ciPrefix lit (c # cs)
      then Some ([], take (length lit) (c # cs), drop (length lit) (c # cs))
      else map_option (\<lambda>(pre, m, post). (c # pre, m, post)) (firstMatchCI lit cs))"

text \<open>
  The replacement text of \<^verbatim>\<open>String.prototype.replace\<close> is a template: \<^verbatim>\<open>$$\<close> stands for a
  dollar sign, \<^verbatim>\<open>$&\<close> for the matched text, \<^verbatim>\<open>$`\<close> for the text before the match and
  \<^verbatim>\<open>$'\<close> for the text after it.  The pattern has no capture group, so \<^verbatim>\<open>$1\<close> and the
  like stand for themselves.
\<close>

fun getSubstitution :: "string \<Rightarrow> string \<Rightarrow> string \<Rightarrow> string \<Rightarrow> string" where
  "getSubstitution m pre post [] = []"
| "getSubstitution m pre post [c] = [c]"
| "getSubstitution m pre post (c # d # ds) =
     (if c = CHR ''$'' \<and> d = CHR ''$'' then CHR ''$'' # getSubstitution m pre post ds
      else if c = CHR ''$'' \<and> d = CHR ''&'' then m @ getSubstitution m pre post ds
      else if c = CHR ''$'' \<and> d = CHR 0x60 then pre @ getSubstitution m pre post ds
      else if c = CHR ''$'' \<and> d = CHR 0x27 then post @ getSubstitution m pre post ds
      else c # getSubstitution m pre post (d # ds))"

definition scriptTag :: "string \<Rightarrow> string" where
  \<open>scriptTag scriptSrc = ''<script type="module" src="'' @ scriptSrc @ ''"></script>''\<close>

definition injectScriptTag :: "string \<Rightarrow> string \<Rightarrow> string" where
  "injectScriptTag html scriptSrc =
     (case firstMatchCI ''</body>'' html of
        Some (pre, m, post) \<Rightarrow>
          pre
          @ getSubstitution m pre post (scriptTag scriptSrc @ [newline] @ ''  </body>'')
          @ post
      | None \<Rightarrow> html @ [newline] @ scriptTag scriptSrc @ [newline])"

text \<open>The injection step of \<^verbatim>\<open>loadHtmlContent\<close>: check, then inject.\<close>

definition injectOnce :: "string \<Rightarrow> string \<Rightarrow> string" where
  "injectOnce html scriptSrc =
     (if isScriptAlreadyInjected html scriptSrc then html else injectScriptTag html scriptSrc)"

definition cacheKey :: "string \<Rightarrow> bool \<Rightarrow> string \<Rightarrow> string" where
  "cacheKey entryPosix isDev base =
     (if isDev then withTrailingSlash (orElse base ''/'') @ ''|'' @ entryPosix else entryPosix)"

definition loadHtmlContent ::
  "file_system \<Rightarrow> Page \<Rightarrow> bool \<Rightarrow> string \<Rightarrow> callback option \<Rightarrow> state
     \<Rightarrow> (js_error + string) \<times> state" where
  "loadHtmlContent fs page isDev base onError s =
     (let entryPosix = toPosix (entry page);
          scriptSrc = buildScriptSrc entryPosix isDev base;
          key = cacheKey entryPosix isDev base;
          cached = (if isDev then entryContentCache s key else None)
      in
        (case cached of
           Some (c # cs) \<Rightarrow> (Inr (c # cs), s)
         | _ \<Rightarrow>
            (case readTemplateWithCache fs (template page) onError s of
               (Inl e, s') \<Rightarrow> (Inl e, s')
             | (Inr htmlRaw, s') \<Rightarrow>
                 (let htmlFinal = injectOnce htmlRaw scriptSrc
                  in (Inr htmlFinal,
                      if isDev
                      then s'\<lparr>entryContentCache := (entryContentCache s')(key \<mapsto> htmlFinal)\<rparr>
                      else s')))))"

section \<open>Page discovery\<close>

text \<open>
  \<^verbatim>\<open>node:path\<close> is not part of the repository.  Its functions are modelled after Node's
  implementation for the paths the plugin builds: \<open>Win32\<close> paths are treated like
  \<open>Posix\<close> ones with the backslash as separator (a slash is accepted as well); drive
  letters and UNC prefixes are not modelled.
\<close>

datatype platform = Posix | Win32

definition sep :: "platform \<Rightarrow> char" where
  "sep P = (case P of Posix \<Rightarrow> CHR ''/'' | Win32 \<Rightarrow> backslash)"

definition isPathSeparator :: "platform \<Rightarrow> char \<Rightarrow> bool" where
  "isPathSeparator P c = (case P of Posix \<Rightarrow> c = CHR ''/'' | Win32 \<Rightarrow> c = CHR ''/'' \<or> c = backslash)"

text \<open>Node's \<^verbatim>\<open>normalizeString\<close>: \<open>res\<close> holds the segments kept so far, last one first.\<close>

fun normalizeSegments :: "bool \<Rightarrow> string list \<Rightarrow> string list \<Rightarrow> string list" where
  "normalizeSegments allowAboveRoot res [] = rev res"
| "normalizeSegments allowAboveRoot res (seg # segs) =
     (if seg = [] \<or> seg = ''.'' then normalizeSegments allowAboveRoot res segs
      else if seg = ''..'' then
        (case res of
           lastSeg # rest \<Rightarrow>
             if lastSeg \<noteq> ''..'' then normalizeSegments allowAboveRoot rest segs
             else if allowAboveRoot then normalizeSegments allowAboveRoot (''..'' # res) segs
             else normalizeSegments allowAboveRoot res segs
         | [] \<Rightarrow>
             if allowAboveRoot then normalizeSegments allowAboveRoot [''..''] segs
             else normalizeSegments allowAboveRoot [] segs)
      else normalizeSegments allowAboveRoot (seg # res) segs)"

definition normalize :: "platform \<Rightarrow> string \<Rightarrow> string" where
  "normalize P p =
     (if p = [] then ''.''
      else
        (let isAbsolute = isPathSeparator P (hd p);
             trailingSeparator = isPathSeparator P (last p);
             body = joinWith [sep P]
                      (normalizeSegments (\<not> isAbsolute) [] (splitOn (isPathSeparator P) p))
         in if body = []
            then (if isAbsolute then [sep P]
                  else if trailingSeparator then ''.'' @ [sep P] else ''.'')
            else (if isAbsolute then [sep P] else [])
                 @ body @ (if trailingSeparator then [sep P] else [])))"

text \<open>\<^verbatim>\<open>path.join(...args)\<close>: the non-empty arguments, joined and normalised.\<close>

definition path_join :: "platform \<Rightarrow> string list \<Rightarrow> string" where
  "path_join P args =
     (case filter (\<lambda>a. a \<noteq> []) args of
        [] \<Rightarrow> ''.''
      | a # as \<Rightarrow> normalize P (joinWith [sep P] (a # as)))"

text \<open>\<^verbatim>\<open>path.resolve(cwd, p)\<close> for an absolute \<open>cwd\<close>: no trailing separator is kept.\<close>

definition path_resolve :: "platform \<Rightarrow> string \<Rightarrow> string \<Rightarrow> string" where
  "path_resolve P cwd p =
     (let full = normalize P (if p \<noteq> [] \<and> isPathSeparator P (hd p) then p else cwd @ [sep P] @ p);
          stripped = rev (dropWhile (isPathSeparator P) (rev full))
      in if stripped = [] then [sep P] else stripped)"

text \<open>
  \<^verbatim>\<open>path.dirname(p)\<close>: the scan from the end of the path skips the trailing separators
  and the last segment; \<open>r\<close> is what is left of the path after its first character, last
  character first.
\<close>

definition path_dirname :: "platform \<Rightarrow> string \<Rightarrow> string" where
  "path_dirname P p =
     (if p = [] then ''.''
      else
        (let hasRoot = isPathSeparator P (hd p);
             r = dropWhile (\<lambda>c. \<not> isPathSeparator P c)
                   (dropWhile (isPathSeparator P) (rev (tl p)))
         in if r = [] then (if hasRoot then [hd p] else ''.'')
            else if hasRoot \<and> length r = 1 then take 2 p
            else take (length r) p))"

text \<open>
  What a directory holds, as \<^verbatim>\<open>readdirSync\<close> and \<^verbatim>\<open>statSync\<close> see it: a regular file,
  a directory with its entries in the order \<^verbatim>\<open>readdirSync\<close> lists them, a directory that
  cannot be read, a symbolic link with what it points to (\<open>Dangling\<close> when it points to
  nothing), or something else (a socket, a device).
\<close>

datatype dirent =
    File
  | Directory "(string \<times> dirent) list"
  | UnreadableDirectory
  | SymbolicLink dirent
  | Other
  | Dangling

fun isDirectory :: "dirent \<Rightarrow> bool" where
  "isDirectory (Directory ents) = True"
| "isDirectory UnreadableDirectory = True"
| "isDirectory d = False"

fun isFile :: "dirent \<Rightarrow> bool" where
  "isFile File = True"
| "isFile d = False"

fun isSymbolicLink :: "dirent \<Rightarrow> bool" where
  "isSymbolicLink (SymbolicLink t) = True"
| "isSymbolicLink d = False"

definition shouldSkip :: "string \<Rightarrow> dirent \<Rightarrow> bool" where
  "shouldSkip nm ent =
     (nm = ''node_modules'' \<or> nm = ''dist'' \<or> nm = ''.git''
      \<or> (isDirectory ent \<and> startsWith nm ''.'')
      \<or> isSymbolicLink ent)"

text \<open>
  \<^verbatim>\<open>walk(absDir, relDir)\<close> of \<^verbatim>\<open>findEntryFiles\<close>; the last argument is what the file system
  holds at \<^verbatim>\<open>absDir\<close>.  The list returned is what the call pushes on \<^verbatim>\<open>result\<close>, in order.
  \<^verbatim>\<open>readdirSync\<close> follows a symbolic link given as the directory itself and raises on
  everything that is not a readable directory; the error is caught.
\<close>

fun walk :: "platform \<Rightarrow> string list \<Rightarrow> string \<Rightarrow> dirent \<Rightarrow> string list" where
  "walk P targets relDir (Directory ents) =
     concat (map (\<lambda>(nm, ent).
        if shouldSkip nm ent then []
        else if isDirectory ent then walk P targets (path_join P [relDir, nm]) ent
        else if isFile ent \<and> nm \<in> set targets
        then [joinWith ''/'' (splitOn (\<lambda>c. c = sep P) (path_join P [relDir, nm]))]
        else []) ents)"
| "walk P targets relDir (SymbolicLink t) = walk P targets relDir t"
| "walk P targets relDir d = []"

definition findEntryFiles :: "platform \<Rightarrow> dirent \<Rightarrow> string list \<Rightarrow> string list" where
  "findEntryFiles P rootDir entryFiles = walk P entryFiles [] rootDir"

text \<open>
  \<^verbatim>\<open>Object.fromEntries\<close>: the pairs are stored in order, a later pair replacing an earlier
  one with the same key.
\<close>

definition fromEntries :: "(string \<times> 'a) list \<Rightarrow> (string \<rightharpoonup> 'a)" where
  "fromEntries kvs = foldl (\<lambda>m (k, v). m(k \<mapsto> v)) Map.empty kvs"

type_synonym Pages = "string \<rightharpoonup> Page"

text \<open>
  The function that \<^verbatim>\<open>resolvePages\<close> maps over the matches.  \<open>pagesContent\<close> is what the
  file system holds at the pages directory; \<open>fs\<close> answers \<^verbatim>\<open>existsSync\<close>.
\<close>

definition resolveTemplate :: "file_system \<Rightarrow> string \<Rightarrow> string \<Rightarrow> string" where
  "resolveTemplate fs colocated defaultTemplate =
     (if \<not> existsSync fs colocated
      then (if defaultTemplate \<noteq> [] \<and> existsSync fs defaultTemplate then defaultTemplate else [])
      else colocated)"

definition resolvePage ::
  "platform \<Rightarrow> file_system \<Rightarrow> string \<Rightarrow> string \<Rightarrow> string \<Rightarrow> string \<Rightarrow> Page" where
  "resolvePage P fs absPagesDir pagesDir defaultTemplate relPosix =
     (let entryDir = path_dirname Posix relPosix
      in \<lparr>name = (if entryDir = ''.'' then ''index'' else entryDir),
          entry = ''/'' @ path_join Posix [toPosix pagesDir, relPosix],
          template =
            resolveTemplate fs
              (path_join P [absPagesDir,
                 joinWith [sep P] (splitOn (\<lambda>c. c = CHR ''/'') entryDir), ''index.html''])
              defaultTemplate\<rparr>)"

definition resolveItems ::
  "platform \<Rightarrow> file_system \<Rightarrow> dirent \<Rightarrow> string \<Rightarrow> string \<Rightarrow> string list \<Rightarrow> string
     \<Rightarrow> Page list" where
  "resolveItems P fs pagesContent cwd pagesDir entryFiles defaultTemplate =
     map (resolvePage P fs (path_resolve P cwd pagesDir) pagesDir defaultTemplate)
       (findEntryFiles P pagesContent entryFiles)"

definition resolvePages ::
  "platform \<Rightarrow> file_system \<Rightarrow> dirent \<Rightarrow> string \<Rightarrow> string \<Rightarrow> string list \<Rightarrow> string
     \<Rightarrow> Pages" where
  "resolvePages P fs pagesContent cwd pagesDir entryFiles defaultTemplate =
     fromEntries (map (\<lambda>it. (name it, it))
       (resolveItems P fs pagesContent cwd pagesDir entryFiles defaultTemplate))"

section \<open>Request resolver\<close>

text \<open>\<^verbatim>\<open>/\.html$/i.test(s)\<close>, and \<^verbatim>\<open>s.replace(/\.html$/i, '')\<close>.\<close>

definition endsWithCI :: "string \<Rightarrow> string \<Rightarrow> bool" where
  "endsWithCI s t =
     (length t \<le> length s
      \<and> map canonicalize (drop (length s - length t) s) = map canonicalize t)"

definition stripHtmlSuffix :: "string \<Rightarrow> string" where
  "stripHtmlSuffix s = (if endsWithCI s ''.html'' then take (length s - 5) s else s)"

text \<open>\<^verbatim>\<open>parsePageMeta\<close> returns the pair of \<^verbatim>\<open>url\<close> and \<^verbatim>\<open>name\<close>.\<close>

definition parsePageMeta :: "string \<Rightarrow> string \<times> string" where
  "parsePageMeta originalUrl =
     (let parts = splitOn (\<lambda>c. c = CHR ''?'') originalUrl;
          rawPath = (case parts of [] \<Rightarrow> [] | p # ps \<Rightarrow> p);
          rawQuery = (case parts of p # q # qs \<Rightarrow> q | _ \<Rightarrow> []);
          pathOnly =
            (if rawPath = ''/'' \<or> rawPath = [] then ''/index.html''
             else if \<not> endsWithCI rawPath ''.html''
             then stripTrailingSlashes rawPath @ ''.html''
             else rawPath)
      in (if rawQuery \<noteq> [] then pathOnly @ ''?'' @ rawQuery else pathOnly,
          stripHtmlSuffix (stripLeadingSlash pathOnly)))"

section \<open>Development adapter\<close>

text \<open>The handler of the watcher's \<^verbatim>\<open>change\<close> event.\<close>

definition onWatcherChange :: "string \<Rightarrow> state \<Rightarrow> state" where
  "onWatcherChange file s =
     (if endsWith file ''.html''
      then s\<lparr>templateContentCache := Map.empty, entryContentCache := Map.empty\<rparr>
      else s)"

section \<open>Production adapter\<close>

text \<open>
  \<^verbatim>\<open>pages\<close> is a plain object built by \<^verbatim>\<open>Object.fromEntries\<close>, so \<^verbatim>\<open>pages[key]\<close> finds the
  page stored under the key and, failing that, what \<^verbatim>\<open>Object.prototype\<close> holds under
  it: a function, or for \<^verbatim>\<open>__proto__\<close> the prototype object.  Each of these is truthy and
  has no property \<^verbatim>\<open>entry\<close>.
\<close>

definition objectPrototypeKeys :: "string list" where
  "objectPrototypeKeys =
     [''constructor'', ''hasOwnProperty'', ''isPrototypeOf'', ''propertyIsEnumerable'',
      ''toLocaleString'', ''toString'', ''valueOf'', ''__defineGetter__'',
      ''__defineSetter__'', ''__lookupGetter__'', ''__lookupSetter__'', ''__proto__'']"

datatype 'a property = Own 'a | Inherited | Undefined

definition getProperty :: "(string \<rightharpoonup> 'a) \<Rightarrow> string \<Rightarrow> 'a property" where
  "getProperty obj key =
     (case obj key of
        Some v \<Rightarrow> Own v
      | None \<Rightarrow> if key \<in> set objectPrototypeKeys then Inherited else Undefined)"

definition resolveId :: "string \<Rightarrow> string option" where
  "resolveId ident = (if endsWith ident ''.html'' then Some ident else None)"

text \<open>
  The \<^verbatim>\<open>load\<close> hook; \<open>Inr None\<close> is the result \<^verbatim>\<open>null\<close>.  With an inherited property as
  \<^verbatim>\<open>page\<close>, \<^verbatim>\<open>loadHtmlContent\<close> calls \<^verbatim>\<open>toPosix(undefined)\<close>, which raises a \<^verbatim>\<open>TypeError\<close>.
\<close>

definition load ::
  "file_system \<Rightarrow> Pages \<Rightarrow> string \<Rightarrow> state \<Rightarrow> (js_error + string option) \<times> state" where
  "load fs pages ident s =
     (if \<not> endsWith ident ''.html'' then (Inr None, s)
      else
        (case getProperty pages (take (length ident - length ''.html'') ident) of
           Own page \<Rightarrow>
             (case loadHtmlContent fs page False ''/'' (Some Raiser) s of
                (Inl e, s') \<Rightarrow> (Inl e, s')
              | (Inr html, s') \<Rightarrow> (Inr (Some html), s'))
         | Inherited \<Rightarrow> (Inl TypeError, s)
         | Undefined \<Rightarrow> (Inr None, s)))"

section \<open>The module in \<^verbatim>\<open>src/src/index.ts\<close>\<close>

text \<open>
  \<^verbatim>\<open>src/src/index.ts\<close> holds its own \<^verbatim>\<open>findEntryFiles\<close>, \<^verbatim>\<open>resolvePages\<close> and \<^verbatim>\<open>load\<close>.
  Its \<^verbatim>\<open>walk\<close> asks \<^verbatim>\<open>statSync\<close>, which follows symbolic links and raises on a dangling
  one, and catches no error of \<^verbatim>\<open>readdirSync\<close>.
\<close>

fun statIsDirectory :: "dirent \<Rightarrow> js_error + bool" where
  "statIsDirectory (SymbolicLink t) = statIsDirectory t"
| "statIsDirectory Dangling = Inl FsError"
| "statIsDirectory d = Inr (isDirectory d)"

fun readdir :: "dirent \<Rightarrow> js_error + (string \<times> dirent) list" where
  "readdir (Directory ents) = Inr ents"
| "readdir (SymbolicLink t) = readdir t"
| "readdir d = Inl FsError"

fun walk_index_ts :: "platform \<Rightarrow> string \<Rightarrow> string \<Rightarrow> dirent \<Rightarrow> js_error + string list"
  and walkFiles_index_ts ::
    "platform \<Rightarrow> string \<Rightarrow> string \<Rightarrow> (string \<times> dirent) list \<Rightarrow> js_error + string list" where
  "walk_index_ts P entryFile relDir (Directory ents) = walkFiles_index_ts P entryFile relDir ents"
| "walk_index_ts P entryFile relDir (SymbolicLink t) = walk_index_ts P entryFile relDir t"
| "walk_index_ts P entryFile relDir d = Inl FsError"
| "walkFiles_index_ts P entryFile relDir [] = Inr []"
| "walkFiles_index_ts P entryFile relDir ((file, ent) # rest) =
     (case statIsDirectory ent of
        Inl e \<Rightarrow> Inl e
      | Inr isDir \<Rightarrow>
          (case (if isDir then walk_index_ts P entryFile (path_join P [relDir, file]) ent
                 else Inr (if file = entryFile then [path_join P [relDir, file]] else [])) of
             Inl e \<Rightarrow> Inl e
           | Inr found \<Rightarrow>
               (case walkFiles_index_ts P entryFile relDir rest of
                  Inl e \<Rightarrow> Inl e
                | Inr others \<Rightarrow> Inr (found @ others))))"

definition findEntryFiles_index_ts :: "platform \<Rightarrow> dirent \<Rightarrow> string \<Rightarrow> js_error + string list" where
  "findEntryFiles_index_ts P rootDir entryFile = walk_index_ts P entryFile [] rootDir"

definition resolveTemplate_index_ts :: "file_system \<Rightarrow> string \<Rightarrow> string \<Rightarrow> string" where
  "resolveTemplate_index_ts fs colocated defaultTemplate =
     (if \<not> existsSync fs colocated \<and> defaultTemplate \<noteq> [] \<and> existsSync fs defaultTemplate
      then defaultTemplate
      else [])"

definition resolvePage_index_ts ::
  "platform \<Rightarrow> file_system \<Rightarrow> string \<Rightarrow> string \<Rightarrow> string \<Rightarrow> string \<Rightarrow> Page" where
  "resolvePage_index_ts P fs absolutePagesDir pagesDir defaultTemplate item =
     (let entryDir = path_dirname P item
      in \<lparr>name = (if entryDir = ''.'' then ''index'' else entryDir),
          entry = ''/'' @ path_join P [pagesDir, item],
          template =
            resolveTemplate_index_ts fs
              (path_join P [absolutePagesDir, entryDir, ''index.html'']) defaultTemplate\<rparr>)"

definition resolvePages_index_ts ::
  "platform \<Rightarrow> file_system \<Rightarrow> dirent \<Rightarrow> string \<Rightarrow> string \<Rightarrow> string \<Rightarrow> string
     \<Rightarrow> js_error + Pages" where
  "resolvePages_index_ts P fs pagesContent cwd pagesDir entryFile defaultTemplate =
     (case findEntryFiles_index_ts P pagesContent entryFile of
        Inl e \<Rightarrow> Inl e
      | Inr found \<Rightarrow>
          Inr (fromEntries (map (\<lambda>it. (name it, it))
            (map (resolvePage_index_ts P fs (path_resolve P cwd pagesDir) pagesDir defaultTemplate)
               found))))"

text \<open>
  \<^verbatim>\<open>id.replace('.html', '')\<close>, the page name that the \<^verbatim>\<open>load\<close> hook of
  \<^verbatim>\<open>src/src/index.ts\<close> looks up: the first occurrence of the text is removed.
\<close>

fun removeFirst :: "string \<Rightarrow> string \<Rightarrow> string" where
  "removeFirst t [] = []"
| "removeFirst t (c # cs) =
     (if take (length t) (c # cs) = t then drop (length t) (c # cs) else c # removeFirst t cs)"

definition loadPageName_index_ts :: "string \<Rightarrow> string" where
  "loadPageName_index_ts ident = removeFirst ''.html'' ident"

section \<open>Notions for stating the properties\<close>

text \<open>A template path that has no usable entry in the template cache.\<close>

definition uncached :: "state \<Rightarrow> string \<Rightarrow> bool" where
  "uncached s p = (templateContentCache s p = None \<or> templateContentCache s p = Some [])"

text \<open>
  Directory entry names as a file system gives them: not empty, not \<open>.\<close> or \<open>..\<close>, and
  free of the separators.  \<open>validTree\<close> says so of every name in a directory tree.
\<close>

definition validName :: "platform \<Rightarrow> string \<Rightarrow> bool" where
  "validName P c =
     (c \<noteq> [] \<and> c \<noteq> ''.'' \<and> c \<noteq> ''..'' \<and> list_all (\<lambda>x. \<not> isPathSeparator P x) c)"

fun validTree :: "platform \<Rightarrow> dirent \<Rightarrow> bool" where
  "validTree P (Directory ents) = list_all (\<lambda>(nm, ent). validName P nm \<and> validTree P ent) ents"
| "validTree P (SymbolicLink t) = validTree P t"
| "validTree P d = True"

text \<open>
  Where the entry files are: for each regular file with a target name that the scan
  reaches, in scan order, the names of the directories from the pages root down to it,
  and its own name.  The skipped directories and the symbolic links are left out as the
  scan leaves them out.
\<close>

fun locations :: "string list \<Rightarrow> dirent \<Rightarrow> (string list \<times> string) list" where
  "locations targets (Directory ents) =
     concat (map (\<lambda>(nm, ent).
        if shouldSkip nm ent then []
        else if isDirectory ent then map (\<lambda>(ds, f). (nm # ds, f)) (locations targets ent)
        else if isFile ent \<and> nm \<in> set targets then [([], nm)]
        else []) ents)"
| "locations targets (SymbolicLink t) = locations targets t"
| "locations targets d = []"

text \<open>
  The page name and the entry path that the specification derives for an entry file in
  the directories \<open>ds\<close> below the pages root: the name is \<open>index\<close> for the root itself
  and the slash-joined directory names otherwise; the entry path joins the POSIX form
  of the pages directory with the POSIX-relative path of the file, after a slash.
\<close>

definition pageNameOf :: "string list \<Rightarrow> string" where
  "pageNameOf ds = (if ds = [] then ''index'' else joinWith ''/'' ds)"

definition entryOf :: "string \<Rightarrow> string list \<Rightarrow> string \<Rightarrow> string" where
  "entryOf pagesDir ds f = ''/'' @ path_join Posix [toPosix pagesDir, joinWith ''/'' (ds @ [f])]"

text \<open>
  The directories that the scan reads: the pages root (through a symbolic link, if it
  is one) and, below a directory it reads, every directory that it does not skip.
  \<open>reaches root ds ents\<close>: below \<open>root\<close>, the directory names \<open>ds\<close> lead to a directory
  that lists \<open>ents\<close>.
\<close>

inductive reaches :: "dirent \<Rightarrow> string list \<Rightarrow> (string \<times> dirent) list \<Rightarrow> bool" where
  reaches_root: "reaches (Directory ents) [] ents"
| reaches_link: "reaches t ds ents \<Longrightarrow> reaches (SymbolicLink t) ds ents"
| reaches_sub:
    "reaches root ds ents \<Longrightarrow> (nm, Directory sub) \<in> set ents
     \<Longrightarrow> \<not> shouldSkip nm (Directory sub) \<Longrightarrow> reaches root (ds @ [nm]) sub"

text \<open>
  The canonical path that the specification gives for a request path: \<open>/index.html\<close> for
  the root, the path itself when it has the suffix, and else the path without its
  trailing slashes, with the suffix appended.
\<close>

definition canonicalPath :: "string \<Rightarrow> string" where
  "canonicalPath path =
     (if path = ''/'' \<or> path = [] then ''/index.html''
      else if endsWithCI path ''.html'' then path
      else stripTrailingSlashes path @ ''.html'')"

section \<open>Example inputs\<close>

definition state0 :: state where
  "state0 = \<lparr>templateContentCache = Map.empty, entryContentCache = Map.empty, logged = []\<rparr>"

definition staleState :: state where
  "staleState =
     \<lparr>templateContentCache = [''/proj/src/pages/index.html'' \<mapsto> ''old template''],
      entryContentCache = [''/|/src/pages/main.ts'' \<mapsto> ''old page''],
      logged = []\<rparr>"

definition fsExample :: file_system where
  "fsExample p =
     (if p = ''/proj/src/pages/index.html'' \<or> p = ''src/index.html''
      then Content ''<html><body></body></html>''
      else if p = ''/proj/src/locked.html'' then Unreadable
      else Missing)"

definition pagesExample :: dirent where
  "pagesExample =
     Directory [(''main.ts'', File), (''main.tsx'', File), (''index.html'', File),
       (''a'', Directory [(''b'', Directory [(''main.ts'', File)])])]"

definition pageExample :: Page where
  "pageExample =
     \<lparr>name = ''index'', entry = ''/src/pages/main.ts'',
      template = ''/proj/src/pages/index.html''\<rparr>"

definition indexExample :: Pages where
  "indexExample =
     fromEntries [(''index'', \<lparr>name = ''index'', entry = ''/src/pages/main.ts'', template = []\<rparr>)]"

section \<open>Properties of the string primitives\<close>

lemma endsWith_iff: "endsWith s t \<longleftrightarrow> (\<exists>p. s = p @ t)"
proof
  assume "endsWith s t"
  then have "s = take (length s - length t) s @ t"
    by (metis append_take_drop_id endsWith_def)
  then show "\<exists>p. s = p @ t" ..
next
  assume "\<exists>p. s = p @ t"
  then show "endsWith s t" by (auto simp: endsWith_def)
qed

lemma startsWith_iff: "startsWith s t \<longleftrightarrow> (\<exists>q. s = t @ q)"
proof
  assume "startsWith s t"
  then have "s = t @ drop (length t) s"
    by (metis append_take_drop_id startsWith_def)
  then show "\<exists>q. s = t @ q" ..
next
  assume "\<exists>q. s = t @ q"
  then show "startsWith s t" by (auto simp: startsWith_def)
qed

lemma endsWith_slash: "endsWith s ''/'' \<longleftrightarrow> s \<noteq> [] \<and> last s = CHR ''/''"
proof (cases s rule: rev_cases)
  case Nil
  then show ?thesis by (simp add: endsWith_def)
next
  case (snoc ys y)
  then show ?thesis by (auto simp: endsWith_def)
qed

lemma withTrailingSlash_ends: "endsWith (withTrailingSlash b) ''/''"
  by (simp add: withTrailingSlash_def endsWith_slash)

lemma templateFallback_nonempty: "templateFallback \<noteq> []"
  by (simp add: templateFallback_def)

lemma splitOn_no_sep: "\<forall>c\<in>set s. \<not> f c \<Longrightarrow> splitOn f s = [s]"
  by (induction s) auto

lemma splitOn_append_sep:
  "\<forall>c\<in>set a. \<not> f c \<Longrightarrow> f x \<Longrightarrow> splitOn f (a @ x # b) = a # splitOn f b"
  by (induction a) auto

lemma joinWith_Cons: "ys \<noteq> [] \<Longrightarrow> joinWith s (x # ys) = x @ s @ joinWith s ys"
  by (cases ys) auto

lemma joinWith_snoc: "xs \<noteq> [] \<Longrightarrow> joinWith s (xs @ [x]) = joinWith s xs @ s @ x"
proof (induction xs)
  case Nil
  then show ?case by simp
next
  case (Cons a xs)
  then show ?case
    by (cases xs) (auto simp: joinWith_Cons)
qed

lemma joinWith_append:
  "xs \<noteq> [] \<Longrightarrow> ys \<noteq> [] \<Longrightarrow> joinWith s (xs @ ys) = joinWith s xs @ s @ joinWith s ys"
proof (induction xs)
  case Nil
  then show ?case by simp
next
  case (Cons a xs)
  then show ?case
    by (cases xs) (auto simp: joinWith_Cons)
qed

lemma splitOn_joinWith:
  assumes "cs \<noteq> []" "f x" "\<forall>c\<in>set cs. \<forall>y\<in>set c. \<not> f y"
  shows "splitOn f (joinWith [x] cs) = cs"
  using assms
proof (induction cs)
  case Nil
  then show ?case by simp
next
  case (Cons c cs)
  show ?case
  proof (cases cs)
    case Nil
    with Cons.prems show ?thesis by (simp add: splitOn_no_sep)
  next
    case (Cons d ds)
    then have "joinWith [x] (c # cs) = c @ x # joinWith [x] cs"
      by simp
    moreover have "splitOn f (joinWith [x] cs) = cs"
      using Cons.IH Cons.prems Cons by simp
    ultimately show ?thesis
      using Cons.prems by (simp add: splitOn_append_sep)
  qed
qed

lemma joinWith_nonempty: "cs \<noteq> [] \<Longrightarrow> hd cs \<noteq> [] \<Longrightarrow> joinWith s cs \<noteq> []"
proof (cases cs)
  case Nil
  then show "cs \<noteq> [] \<Longrightarrow> ?thesis" by simp
next
  case (Cons c cs')
  then show "hd cs \<noteq> [] \<Longrightarrow> ?thesis" by (cases cs') auto
qed

lemma hd_joinWith: "cs \<noteq> [] \<Longrightarrow> hd cs \<noteq> [] \<Longrightarrow> hd (joinWith s cs) = hd (hd cs)"
proof (cases cs)
  case Nil
  then show "cs \<noteq> [] \<Longrightarrow> ?thesis" by simp
next
  case (Cons c cs')
  then show "hd cs \<noteq> [] \<Longrightarrow> ?thesis" by (cases cs') auto
qed

lemma joinWith_nonempty_last: "cs \<noteq> [] \<Longrightarrow> last cs \<noteq> [] \<Longrightarrow> joinWith s cs \<noteq> []"
  by (induction s cs rule: joinWith.induct) auto

lemma last_joinWith:
  "cs \<noteq> [] \<Longrightarrow> last cs \<noteq> [] \<Longrightarrow> last (joinWith s cs) = last (last cs)"
proof (induction s cs rule: joinWith.induct)
  case (1 sep)
  then show ?case by simp
next
  case (2 sep x)
  then show ?case by simp
next
  case (3 sep x y ys)
  then have "joinWith sep (y # ys) \<noteq> []"
    by (intro joinWith_nonempty_last) auto
  with 3 show ?case by simp
qed

lemma dropWhile_append_all: "\<forall>x\<in>set xs. Q x \<Longrightarrow> dropWhile Q (xs @ ys) = dropWhile Q ys"
  by (induction xs) auto

lemma dropWhile_none: "\<forall>x\<in>set xs. \<not> Q x \<Longrightarrow> dropWhile Q xs = xs"
  by (cases xs) auto

section \<open>The script source\<close>

text \<open>
  C8, as the specification states it, fails: a base that ends with two separators keeps
  both, so the script source is not the base cut down to one final separator followed by
  the entry path.
\<close>

theorem buildScriptSrc_not_exactly_one_slash:
  "buildScriptSrc ''/src/pages/main.ts'' True ''/app//'' = ''/app//src/pages/main.ts''
   \<and> endWithExactlyOneSlash ''/app//'' @ stripLeadingSlash ''/src/pages/main.ts''
       = ''/app/src/pages/main.ts''"
  by (simp add: buildScriptSrc_def withTrailingSlash_def endsWith_def orElse_def
      stripLeadingSlash_def endWithExactlyOneSlash_def stripTrailingSlashes_def)

text \<open>
  C8, amended: in production mode the script source is the entry path unchanged.  In
  development mode it is the base (\<open>/\<close> for an empty base), with one separator appended
  only when the base does not already end with one, followed by the entry path without
  its first character when that is a separator.  The join holds exactly one separator
  whenever the base does not end with two separators and the entry path does not begin
  with two.
\<close>

theorem buildScriptSrc_amended:
  "buildScriptSrc entryPath False base = entryPath
   \<and> buildScriptSrc entryPath True base =
       (if base = [] then ''/'' else if last base = CHR ''/'' then base else base @ ''/'')
       @ (if entryPath \<noteq> [] \<and> hd entryPath = CHR ''/'' then tl entryPath else entryPath)
   \<and> (\<not> endsWith base ''//'' \<and> \<not> startsWith entryPath ''//'' \<longrightarrow>
        (\<exists>b e. buildScriptSrc entryPath True base = b @ ''/'' @ e
           \<and> \<not> endsWith b ''/'' \<and> \<not> startsWith e ''/''))"
proof (intro conjI impI)
  show "buildScriptSrc entryPath False base = entryPath"
    by (simp add: buildScriptSrc_def)
  show "buildScriptSrc entryPath True base =
       (if base = [] then ''/'' else if last base = CHR ''/'' then base else base @ ''/'')
       @ (if entryPath \<noteq> [] \<and> hd entryPath = CHR ''/'' then tl entryPath else entryPath)"
    by (cases entryPath)
      (auto simp: buildScriptSrc_def withTrailingSlash_def endsWith_slash orElse_def
        stripLeadingSlash_def)
  assume h: "\<not> endsWith base ''//'' \<and> \<not> startsWith entryPath ''//''"
  define e where "e = stripLeadingSlash entryPath"
  define b where
    "b = (if base = [] then [] else if last base = CHR ''/'' then butlast base else base)"
  have e: "\<not> startsWith e ''/''"
  proof (cases entryPath)
    case Nil
    then show ?thesis by (simp add: e_def stripLeadingSlash_def startsWith_def)
  next
    case (Cons c cs)
    with h show ?thesis
      by (cases cs) (auto simp: e_def stripLeadingSlash_def startsWith_def)
  qed
  have b: "\<not> endsWith b ''/''"
  proof (cases base rule: rev_cases)
    case Nil
    then show ?thesis by (simp add: b_def endsWith_def)
  next
    case (snoc ys y)
    show ?thesis
    proof (cases "y = CHR ''/''")
      case True
      have "ys = [] \<or> last ys \<noteq> CHR ''/''"
      proof (rule ccontr)
        assume "\<not> (ys = [] \<or> last ys \<noteq> CHR ''/'')"
        then have "ys = butlast ys @ ''/''"
          by (metis append_butlast_last_id)
        then have "base = butlast ys @ ''//''"
          using snoc True by (metis append.assoc append_Cons append_Nil)
        then have "endsWith base ''//''"
          unfolding endsWith_iff by blast
        with h show False by simp
      qed
      with snoc True show ?thesis
        by (auto simp: b_def endsWith_slash)
    next
      case False
      with snoc show ?thesis
        by (auto simp: b_def endsWith_slash)
    qed
  qed
  have "withTrailingSlash (orElse base ''/'') = b @ ''/''"
    by (cases base rule: rev_cases)
      (auto simp: withTrailingSlash_def orElse_def endsWith_slash b_def)
  then have "buildScriptSrc entryPath True base = b @ ''/'' @ e"
    by (simp add: buildScriptSrc_def e_def)
  with b e show "\<exists>b e. buildScriptSrc entryPath True base = b @ ''/'' @ e
           \<and> \<not> endsWith b ''/'' \<and> \<not> startsWith e ''/''"
    by blast
qed

theorem buildScriptSrc_amended_witness:
  "buildScriptSrc ''/src/pages/main.ts'' False ''/app/'' = ''/src/pages/main.ts''
   \<and> buildScriptSrc ''/src/pages/main.ts'' True ''/app'' = ''/app/src/pages/main.ts''
   \<and> \<not> endsWith ''/app'' ''//'' \<and> \<not> startsWith ''/src/pages/main.ts'' ''//''
   \<and> (\<exists>b e. buildScriptSrc ''/src/pages/main.ts'' True ''/app'' = b @ ''/'' @ e
           \<and> \<not> endsWith b ''/'' \<and> \<not> startsWith e ''/'')"
proof -
  have h: "\<not> endsWith ''/app'' ''//'' \<and> \<not> startsWith ''/src/pages/main.ts'' ''//''"
    by (simp add: endsWith_def startsWith_def)
  have v1: "buildScriptSrc ''/src/pages/main.ts'' False ''/app/'' = ''/src/pages/main.ts''"
    by (simp add: buildScriptSrc_def)
  have v2: "buildScriptSrc ''/src/pages/main.ts'' True ''/app'' = ''/app/src/pages/main.ts''"
    by (simp add: buildScriptSrc_def withTrailingSlash_def endsWith_def orElse_def
        stripLeadingSlash_def)
  from buildScriptSrc_amended [of "''/src/pages/main.ts''" "''/app''"] h
  have "\<exists>b e. buildScriptSrc ''/src/pages/main.ts'' True ''/app'' = b @ ''/'' @ e
           \<and> \<not> endsWith b ''/'' \<and> \<not> startsWith e ''/''"
    by blast
  with h v1 v2 show ?thesis by blast
qed

section \<open>The template cache\<close>

lemma readTemplate_sentinel: "readTemplateWithCache fs [] cb s = (Inr templateFallback, s)"
  by (simp add: readTemplateWithCache_def)

lemma readTemplate_hit:
  "p \<noteq> [] \<Longrightarrow> templateContentCache s p = Some h \<Longrightarrow> h \<noteq> [] \<Longrightarrow>
   readTemplateWithCache fs p cb s = (Inr h, s)"
  by (cases h) (simp_all add: readTemplateWithCache_def)

lemma readTemplate_content:
  "p \<noteq> [] \<Longrightarrow> uncached s p \<Longrightarrow> fs p = Content t \<Longrightarrow> t \<noteq> [] \<Longrightarrow>
   readTemplateWithCache fs p cb s
     = (Inr t, s\<lparr>templateContentCache := (templateContentCache s)(p \<mapsto> t)\<rparr>)"
  by (auto simp: readTemplateWithCache_def uncached_def orElse_def)

lemma readTemplate_missing:
  "p \<noteq> [] \<Longrightarrow> uncached s p \<Longrightarrow> fs p = Missing \<or> fs p = Content [] \<Longrightarrow>
   readTemplateWithCache fs p cb s
     = (Inr templateFallback,
        s\<lparr>templateContentCache := (templateContentCache s)(p \<mapsto> templateFallback)\<rparr>)"
  by (auto simp: readTemplateWithCache_def uncached_def orElse_def)

lemma readTemplate_unreadable_logger:
  "p \<noteq> [] \<Longrightarrow> uncached s p \<Longrightarrow> fs p = Unreadable \<Longrightarrow>
   readTemplateWithCache fs p (Some Logger) s
     = (Inr templateFallback,
        s\<lparr>logged := logged s @ [readFailureMessage p],
          templateContentCache := (templateContentCache s)(p \<mapsto> templateFallback)\<rparr>)"
  by (auto simp: readTemplateWithCache_def uncached_def orElse_def)

lemma readTemplate_unreadable_none:
  "p \<noteq> [] \<Longrightarrow> uncached s p \<Longrightarrow> fs p = Unreadable \<Longrightarrow>
   readTemplateWithCache fs p None s
     = (Inr templateFallback,
        s\<lparr>templateContentCache := (templateContentCache s)(p \<mapsto> templateFallback)\<rparr>)"
  by (auto simp: readTemplateWithCache_def uncached_def orElse_def)

lemma readTemplate_unreadable_raiser:
  "p \<noteq> [] \<Longrightarrow> uncached s p \<Longrightarrow> fs p = Unreadable \<Longrightarrow>
   readTemplateWithCache fs p (Some Raiser) s = (Inl (PluginError (readFailureMessage p)), s)"
  by (auto simp: readTemplateWithCache_def uncached_def orElse_def)

lemma readTemplate_returns:
  "cb \<noteq> Some Raiser \<Longrightarrow> \<exists>h. fst (readTemplateWithCache fs p cb s) = Inr h"
  by (auto simp: readTemplateWithCache_def Let_def
      split: option.splits list.splits file_state.splits callback.splits)

lemma readTemplate_entryCache:
  "entryContentCache (snd (readTemplateWithCache fs p cb s)) = entryContentCache s"
  by (auto simp: readTemplateWithCache_def Let_def
      split: option.splits list.splits file_state.splits callback.splits)

lemma readTemplate_ignores_entryCache:
  "fst (readTemplateWithCache fs p cb (s\<lparr>entryContentCache := m\<rparr>))
     = fst (readTemplateWithCache fs p cb s)"
  by (auto simp: readTemplateWithCache_def Let_def
      split: option.splits list.splits file_state.splits callback.splits)

lemma readTemplate_templateCache:
  "templateContentCache (snd (readTemplateWithCache fs p cb s)) = templateContentCache s
   \<or> (\<exists>h. templateContentCache (snd (readTemplateWithCache fs p cb s))
            = (templateContentCache s)(p \<mapsto> h))"
  by (auto simp: readTemplateWithCache_def Let_def
      split: option.splits list.splits file_state.splits callback.splits)

text \<open>
  C6, as the specification states it, fails: a missing template file is a read failure
  that yields the fallback, yet nothing is reported through the callback.
\<close>

theorem readTemplateWithCache_counterexample:
  "fst (readTemplateWithCache (\<lambda>p. Missing) ''/proj/src/index.html'' (Some Logger) state0)
     = Inr templateFallback
   \<and> logged (snd (readTemplateWithCache (\<lambda>p. Missing) ''/proj/src/index.html'' (Some Logger)
        state0)) = []"
  by (simp add: readTemplateWithCache_def state0_def orElse_def templateFallback_nonempty)

text \<open>
  C6, amended: with the logging callback of the development plugin, or with none, the
  template-reading operation never raises.  The empty-string sentinel yields the
  built-in fallback and leaves both caches as they are.  A usable cache entry is
  returned as it is.  Otherwise a readable, non-empty file yields its text; a missing
  path or an empty file yields the fallback and nothing is reported; a path that exists
  and cannot be read yields the fallback and is reported through the logging callback.
  A text returned for a path other than the sentinel is cached under that path.
\<close>

theorem readTemplateWithCache_amended:
  "readTemplateWithCache fs [] cb s = (Inr templateFallback, s)
   \<and> (cb = None \<or> cb = Some Logger \<longrightarrow> (\<exists>h. fst (readTemplateWithCache fs p cb s) = Inr h))
   \<and> (p \<noteq> [] \<and> templateContentCache s p = Some h \<and> h \<noteq> [] \<longrightarrow>
        readTemplateWithCache fs p cb s = (Inr h, s))
   \<and> (p \<noteq> [] \<and> uncached s p \<and> fs p = Content t \<and> t \<noteq> [] \<longrightarrow>
        readTemplateWithCache fs p cb s
          = (Inr t, s\<lparr>templateContentCache := (templateContentCache s)(p \<mapsto> t)\<rparr>))
   \<and> (p \<noteq> [] \<and> uncached s p \<and> (fs p = Missing \<or> fs p = Content []) \<longrightarrow>
        readTemplateWithCache fs p cb s
          = (Inr templateFallback,
             s\<lparr>templateContentCache := (templateContentCache s)(p \<mapsto> templateFallback)\<rparr>))
   \<and> (p \<noteq> [] \<and> uncached s p \<and> fs p = Unreadable \<longrightarrow>
        readTemplateWithCache fs p (Some Logger) s
          = (Inr templateFallback,
             s\<lparr>logged := logged s @ [readFailureMessage p],
               templateContentCache := (templateContentCache s)(p \<mapsto> templateFallback)\<rparr>)
        \<and> readTemplateWithCache fs p None s
          = (Inr templateFallback,
             s\<lparr>templateContentCache := (templateContentCache s)(p \<mapsto> templateFallback)\<rparr>))"
proof (intro conjI impI)
  show "readTemplateWithCache fs [] cb s = (Inr templateFallback, s)"
    by (rule readTemplate_sentinel)
  show "\<exists>h. fst (readTemplateWithCache fs p cb s) = Inr h" if "cb = None \<or> cb = Some Logger"
    using that by (intro readTemplate_returns) auto
  show "readTemplateWithCache fs p cb s = (Inr h, s)"
    if "p \<noteq> [] \<and> templateContentCache s p = Some h \<and> h \<noteq> []"
    using that by (simp add: readTemplate_hit)
  show "readTemplateWithCache fs p cb s
          = (Inr t, s\<lparr>templateContentCache := (templateContentCache s)(p \<mapsto> t)\<rparr>)"
    if "p \<noteq> [] \<and> uncached s p \<and> fs p = Content t \<and> t \<noteq> []"
    using that by (simp add: readTemplate_content)
  show "readTemplateWithCache fs p cb s
          = (Inr templateFallback,
             s\<lparr>templateContentCache := (templateContentCache s)(p \<mapsto> templateFallback)\<rparr>)"
    if "p \<noteq> [] \<and> uncached s p \<and> (fs p = Missing \<or> fs p = Content [])"
    using that readTemplate_missing [of p s fs cb] by blast
  show "readTemplateWithCache fs p (Some Logger) s
          = (Inr templateFallback,
             s\<lparr>logged := logged s @ [readFailureMessage p],
               templateContentCache := (templateContentCache s)(p \<mapsto> templateFallback)\<rparr>)"
    if "p \<noteq> [] \<and> uncached s p \<and> fs p = Unreadable"
    using that by (simp add: readTemplate_unreadable_logger)
  show "readTemplateWithCache fs p None s
          = (Inr templateFallback,
             s\<lparr>templateContentCache := (templateContentCache s)(p \<mapsto> templateFallback)\<rparr>)"
    if "p \<noteq> [] \<and> uncached s p \<and> fs p = Unreadable"
    using that by (simp add: readTemplate_unreadable_none)
qed

theorem readTemplateWithCache_amended_witness:
  "readTemplateWithCache fsExample [] (Some Logger) staleState = (Inr templateFallback, staleState)
   \<and> (\<exists>h. fst (readTemplateWithCache fsExample ''/proj/src/locked.html'' (Some Logger) state0)
          = Inr h)
   \<and> readTemplateWithCache fsExample ''/proj/src/pages/index.html'' (Some Logger) staleState
       = (Inr ''old template'', staleState)
   \<and> readTemplateWithCache fsExample ''/proj/src/pages/index.html'' (Some Logger) state0
       = (Inr ''<html><body></body></html>'',
          state0\<lparr>templateContentCache :=
            [''/proj/src/pages/index.html'' \<mapsto> ''<html><body></body></html>'']\<rparr>)
   \<and> readTemplateWithCache fsExample ''/proj/src/absent.html'' (Some Logger) state0
       = (Inr templateFallback,
          state0\<lparr>templateContentCache := [''/proj/src/absent.html'' \<mapsto> templateFallback]\<rparr>)
   \<and> readTemplateWithCache fsExample ''/proj/src/locked.html'' (Some Logger) state0
       = (Inr templateFallback,
          state0\<lparr>logged := [readFailureMessage ''/proj/src/locked.html''],
            templateContentCache := [''/proj/src/locked.html'' \<mapsto> templateFallback]\<rparr>)
   \<and> readTemplateWithCache fsExample ''/proj/src/locked.html'' None state0
       = (Inr templateFallback,
          state0\<lparr>templateContentCache := [''/proj/src/locked.html'' \<mapsto> templateFallback]\<rparr>)"
proof -
  have c: "templateContentCache state0 = Map.empty" "logged state0 = []"
    by (simp_all add: state0_def)
  have u: "uncached state0 q" for q
    by (simp add: uncached_def state0_def)
  have hit: "templateContentCache staleState ''/proj/src/pages/index.html'' = Some ''old template''"
    by (simp add: staleState_def)
  have f1: "fsExample ''/proj/src/pages/index.html'' = Content ''<html><body></body></html>''"
    and f2: "fsExample ''/proj/src/absent.html'' = Missing"
    and f3: "fsExample ''/proj/src/locked.html'' = Unreadable"
    by (simp_all add: fsExample_def)
  note T = readTemplateWithCache_amended
  have "readTemplateWithCache fsExample [] (Some Logger) staleState = (Inr templateFallback, staleState)"
    using T [of fsExample "Some Logger" staleState] by blast
  moreover have "\<exists>h. fst (readTemplateWithCache fsExample ''/proj/src/locked.html'' (Some Logger)
      state0) = Inr h"
    using T [where fs = fsExample and cb = "Some Logger" and s = state0
        and p = "''/proj/src/locked.html''"]
    by blast
  moreover have "readTemplateWithCache fsExample ''/proj/src/pages/index.html'' (Some Logger) staleState
       = (Inr ''old template'', staleState)"
    using T [where fs = fsExample and cb = "Some Logger" and s = staleState
        and p = "''/proj/src/pages/index.html''" and h = "''old template''"] hit
    by simp
  moreover have "readTemplateWithCache fsExample ''/proj/src/pages/index.html'' (Some Logger) state0
       = (Inr ''<html><body></body></html>'',
          state0\<lparr>templateContentCache :=
            [''/proj/src/pages/index.html'' \<mapsto> ''<html><body></body></html>'']\<rparr>)"
    using T [where fs = fsExample and cb = "Some Logger" and s = state0
        and p = "''/proj/src/pages/index.html''" and t = "''<html><body></body></html>''"] u f1 c
    by simp
  moreover have "readTemplateWithCache fsExample ''/proj/src/absent.html'' (Some Logger) state0
       = (Inr templateFallback,
          state0\<lparr>templateContentCache := [''/proj/src/absent.html'' \<mapsto> templateFallback]\<rparr>)"
    using T [where fs = fsExample and cb = "Some Logger" and s = state0
        and p = "''/proj/src/absent.html''"] u f2 c
    by simp
  moreover have "readTemplateWithCache fsExample ''/proj/src/locked.html'' (Some Logger) state0
       = (Inr templateFallback,
          state0\<lparr>logged := [readFailureMessage ''/proj/src/locked.html''],
            templateContentCache := [''/proj/src/locked.html'' \<mapsto> templateFallback]\<rparr>)"
    using T [where fs = fsExample and s = state0 and p = "''/proj/src/locked.html''"] u f3 c
    by simp
  moreover have "readTemplateWithCache fsExample ''/proj/src/locked.html'' None state0
       = (Inr templateFallback,
          state0\<lparr>templateContentCache := [''/proj/src/locked.html'' \<mapsto> templateFallback]\<rparr>)"
    using T [where fs = fsExample and s = state0 and p = "''/proj/src/locked.html''"] u f3 c
    by simp
  ultimately show ?thesis by blast
qed

text \<open>
  With the callback of the build plugin, which raises, a template that exists and cannot
  be read makes the operation raise; the doc comment of the function promises the
  fallback for a file that is missing or unreadable.
\<close>

lemma readTemplate_raises_example:
  "fst (readTemplateWithCache fsExample ''/proj/src/locked.html'' (Some Raiser) state0)
     = Inl (PluginError (readFailureMessage ''/proj/src/locked.html''))"
  by (simp add: readTemplateWithCache_def state0_def fsExample_def)

section \<open>Rendering a page\<close>

lemma loadHtmlContent_fresh:
  assumes "templateContentCache s = Map.empty" "entryContentCache s = Map.empty"
    and "template page \<noteq> []" "fs (template page) = Content t" "t \<noteq> []"
  shows "fst (loadHtmlContent fs page isDev base cb s)
         = Inr (injectOnce t (buildScriptSrc (toPosix (entry page)) isDev base))"
proof -
  have "uncached s (template page)"
    using assms(1) by (simp add: uncached_def)
  with assms(3-5) have "readTemplateWithCache fs (template page) cb s
     = (Inr t, s\<lparr>templateContentCache := (templateContentCache s)(template page \<mapsto> t)\<rparr>)"
    by (simp add: readTemplate_content)
  then show ?thesis
    using assms(2) by (simp add: loadHtmlContent_def Let_def)
qed


text \<open>
  C10: rendering in production mode (\<open>isDev = False\<close>) neither writes nor reads the
  assembled-HTML cache: the cache is the same after the call, the result is the same
  whatever the cache holds, and the template cache is unchanged or has gained an entry
  for the page's template path.  This holds for every outcome of the call, a raised
  error included.
\<close>

theorem loadHtmlContent_production_frame:
  "entryContentCache (snd (loadHtmlContent fs page False base cb s)) = entryContentCache s
   \<and> fst (loadHtmlContent fs page False base cb (s\<lparr>entryContentCache := m\<rparr>))
       = fst (loadHtmlContent fs page False base cb s)
   \<and> (templateContentCache (snd (loadHtmlContent fs page False base cb s)) = templateContentCache s
      \<or> (\<exists>h. templateContentCache (snd (loadHtmlContent fs page False base cb s))
               = (templateContentCache s)(template page \<mapsto> h)))"
proof (intro conjI)
  obtain r s' where r: "readTemplateWithCache fs (template page) cb s = (r, s')"
    by (cases "readTemplateWithCache fs (template page) cb s")
  obtain r2 s2 where
    r2: "readTemplateWithCache fs (template page) cb (s\<lparr>entryContentCache := m\<rparr>) = (r2, s2)"
    by (cases "readTemplateWithCache fs (template page) cb (s\<lparr>entryContentCache := m\<rparr>)")
  have s': "entryContentCache s' = entryContentCache s"
    using readTemplate_entryCache [of fs "template page" cb s] r by simp
  have rr: "r2 = r"
    using readTemplate_ignores_entryCache
      [where fs = fs and p = "template page" and cb = cb and s = s and m = m] r r2
    by simp
  have tc: "templateContentCache s' = templateContentCache s
     \<or> (\<exists>h. templateContentCache s' = (templateContentCache s)(template page \<mapsto> h))"
    using readTemplate_templateCache [of fs "template page" cb s] r by simp
  show "entryContentCache (snd (loadHtmlContent fs page False base cb s)) = entryContentCache s"
    using r s' by (cases r) (simp_all add: loadHtmlContent_def Let_def)
  show "fst (loadHtmlContent fs page False base cb (s\<lparr>entryContentCache := m\<rparr>))
       = fst (loadHtmlContent fs page False base cb s)"
    using r r2 rr by (cases r) (simp_all add: loadHtmlContent_def Let_def)
  show "templateContentCache (snd (loadHtmlContent fs page False base cb s)) = templateContentCache s
      \<or> (\<exists>h. templateContentCache (snd (loadHtmlContent fs page False base cb s))
               = (templateContentCache s)(template page \<mapsto> h))"
    using r tc by (cases r) (simp_all add: loadHtmlContent_def Let_def)
qed

section \<open>Cache invalidation\<close>

text \<open>Before the change event, a render in development answers from the caches.\<close>

lemma stale_render_example:
  "fst (loadHtmlContent fsExample pageExample True ''/'' (Some Logger) staleState) = Inr ''old page''"
  by (simp add: loadHtmlContent_def Let_def pageExample_def staleState_def cacheKey_def
      toPosix_def backslash_def withTrailingSlash_def endsWith_def orElse_def)


text \<open>
  C7: when the watcher reports a change of a path ending in \<open>.html\<close>, both caches are
  empty afterwards, whatever they held; a render of any page whose template file is
  readable and not empty then returns the text of the file as it is now, with the script
  injected, not a text cached before.
\<close>

theorem html_change_clears_caches:
  "endsWith changed ''.html'' \<longrightarrow>
     templateContentCache (onWatcherChange changed s) = Map.empty
     \<and> entryContentCache (onWatcherChange changed s) = Map.empty
     \<and> (template page \<noteq> [] \<and> fs (template page) = Content t \<and> t \<noteq> [] \<longrightarrow>
          fst (loadHtmlContent fs page True base cb (onWatcherChange changed s))
            = Inr (injectOnce t (buildScriptSrc (toPosix (entry page)) True base)))"
proof (intro impI conjI)
  assume h: "endsWith changed ''.html''"
  then show c1: "templateContentCache (onWatcherChange changed s) = Map.empty"
    and c2: "entryContentCache (onWatcherChange changed s) = Map.empty"
    by (simp_all add: onWatcherChange_def)
  assume "template page \<noteq> [] \<and> fs (template page) = Content t \<and> t \<noteq> []"
  with c1 c2 show "fst (loadHtmlContent fs page True base cb (onWatcherChange changed s))
            = Inr (injectOnce t (buildScriptSrc (toPosix (entry page)) True base))"
    by (simp add: loadHtmlContent_fresh)
qed


theorem html_change_clears_caches_witness:
  "endsWith ''src/pages/index.html'' ''.html''
   \<and> templateContentCache (onWatcherChange ''src/pages/index.html'' staleState) = Map.empty
   \<and> entryContentCache (onWatcherChange ''src/pages/index.html'' staleState) = Map.empty
   \<and> fst (loadHtmlContent fsExample pageExample True ''/'' (Some Logger)
            (onWatcherChange ''src/pages/index.html'' staleState))
       = Inr (injectOnce ''<html><body></body></html>'' ''/src/pages/main.ts'')"
proof -
  have h: "endsWith ''src/pages/index.html'' ''.html''"
    by (simp add: endsWith_def)
  have p: "template pageExample \<noteq> []
      \<and> fsExample (template pageExample) = Content ''<html><body></body></html>''
      \<and> ''<html><body></body></html>'' \<noteq> []"
    by (simp add: pageExample_def fsExample_def)
  have src: "buildScriptSrc (toPosix (entry pageExample)) True ''/'' = ''/src/pages/main.ts''"
    by (simp add: pageExample_def toPosix_def backslash_def buildScriptSrc_def
        withTrailingSlash_def endsWith_def orElse_def stripLeadingSlash_def)
  from html_change_clears_caches [where changed = "''src/pages/index.html''" and s = staleState
      and page = pageExample and fs = fsExample and t = "''<html><body></body></html>''"
      and base = "''/''" and cb = "Some Logger"] h p
  have "templateContentCache (onWatcherChange ''src/pages/index.html'' staleState) = Map.empty
     \<and> entryContentCache (onWatcherChange ''src/pages/index.html'' staleState) = Map.empty
     \<and> fst (loadHtmlContent fsExample pageExample True ''/'' (Some Logger)
            (onWatcherChange ''src/pages/index.html'' staleState))
       = Inr (injectOnce ''<html><body></body></html>''
            (buildScriptSrc (toPosix (entry pageExample)) True ''/''))"
    by blast
  with h src show ?thesis by simp
qed

section \<open>The page index\<close>

lemma fromEntries_Nil: "fromEntries [] = Map.empty"
  by (simp add: fromEntries_def)

lemma fromEntries_snoc: "fromEntries (kvs @ [(k, v)]) = (fromEntries kvs)(k \<mapsto> v)"
  by (simp add: fromEntries_def)

lemma fromEntries_last_wins:
  "fromEntries (map (\<lambda>it. (f it, it)) items) n =
     (if filter (\<lambda>it. f it = n) items = [] then None
      else Some (last (filter (\<lambda>it. f it = n) items)))"
proof (induction items rule: rev_induct)
  case Nil
  then show ?case by (simp add: fromEntries_Nil)
next
  case (snoc x xs)
  then show ?case
    by (simp add: fromEntries_snoc)
qed

text \<open>Two entry file names in one directory: both derive \<open>index\<close>, the later one stays.\<close>

lemma resolveItems_collision_example:
  "map (\<lambda>it. (name it, entry it))
     (resolveItems Posix fsExample pagesExample ''/proj'' ''src/pages''
        [''main.ts'', ''main.tsx''] [])
   = [(''index'', ''/src/pages/main.ts''), (''index'', ''/src/pages/main.tsx''),
      (''a/b'', ''/src/pages/a/b/main.ts'')]"
  by code_simp

lemma resolvePages_collision_example:
  "map_option entry
     (resolvePages Posix fsExample pagesExample ''/proj'' ''src/pages''
        [''main.ts'', ''main.tsx''] [] ''index'')
   = Some ''/src/pages/main.tsx''"
  by code_simp

section \<open>Paths\<close>

lemma normalizeSegments_plain:
  "\<forall>c\<in>set cs. c \<noteq> [] \<and> c \<noteq> ''.'' \<and> c \<noteq> ''..'' \<Longrightarrow>
   normalizeSegments up res cs = rev res @ cs"
  by (induction cs arbitrary: res) auto

lemma validName_chars: "validName P c \<Longrightarrow> \<forall>y\<in>set c. \<not> isPathSeparator P y"
  by (simp add: validName_def list_all_iff)

lemma isPathSeparator_sep: "isPathSeparator P (sep P)"
  by (cases P) (simp_all add: isPathSeparator_def sep_def)

lemma normalize_valid:
  assumes "cs \<noteq> []" "\<forall>c\<in>set cs. validName P c"
  shows "normalize P (joinWith [sep P] cs) = joinWith [sep P] cs"
proof -
  let ?p = "joinWith [sep P] cs"
  have hdne: "hd cs \<noteq> []" and lastne: "last cs \<noteq> []"
    using assms by (auto simp: validName_def)
  have ne: "?p \<noteq> []"
    using assms(1) hdne by (rule joinWith_nonempty)
  have "hd ?p = hd (hd cs)"
    using assms(1) hdne by (rule hd_joinWith)
  moreover have "hd (hd cs) \<in> set (hd cs)" "hd cs \<in> set cs"
    using hdne assms(1) by auto
  ultimately have notabs: "\<not> isPathSeparator P (hd ?p)"
    using assms(2) validName_chars by metis
  have "last ?p = last (last cs)"
    using assms(1) lastne by (rule last_joinWith)
  moreover have "last (last cs) \<in> set (last cs)" "last cs \<in> set cs"
    using lastne assms(1) by auto
  ultimately have nottrail: "\<not> isPathSeparator P (last ?p)"
    using assms(2) validName_chars by metis
  have split: "splitOn (isPathSeparator P) ?p = cs"
    using assms(1) isPathSeparator_sep assms(2) validName_chars
    by (intro splitOn_joinWith) auto
  have "\<forall>c\<in>set cs. c \<noteq> [] \<and> c \<noteq> ''.'' \<and> c \<noteq> ''..''"
    using assms(2) by (auto simp: validName_def)
  then have "normalizeSegments True [] cs = cs"
    by (simp add: normalizeSegments_plain)
  with ne notabs nottrail split show ?thesis
    by (simp add: normalize_def Let_def)
qed

lemma path_join_valid:
  assumes "\<forall>c\<in>set ds. validName P c" "validName P nm"
  shows "path_join P [joinWith [sep P] ds, nm] = joinWith [sep P] (ds @ [nm])"
proof (cases "ds = []")
  case True
  have "nm \<noteq> []" using assms(2) by (simp add: validName_def)
  moreover have "normalize P (joinWith [sep P] [nm]) = joinWith [sep P] [nm]"
    using assms(2) by (intro normalize_valid) auto
  ultimately show ?thesis
    using True by (simp add: path_join_def)
next
  case False
  then have "hd ds \<noteq> []"
    using assms(1) by (auto simp: validName_def)
  with False have ne: "joinWith [sep P] ds \<noteq> []"
    by (simp add: joinWith_nonempty)
  have nm: "nm \<noteq> []" using assms(2) by (simp add: validName_def)
  have "joinWith [sep P] [joinWith [sep P] ds, nm] = joinWith [sep P] (ds @ [nm])"
    using False by (simp add: joinWith_snoc)
  moreover have "normalize P (joinWith [sep P] (ds @ [nm])) = joinWith [sep P] (ds @ [nm])"
    using assms by (intro normalize_valid) auto
  ultimately show ?thesis
    using ne nm by (simp add: path_join_def)
qed

lemma validName_no_slash: "validName P c \<Longrightarrow> CHR ''/'' \<notin> set c"
  by (cases P) (auto simp: validName_def list_all_iff isPathSeparator_def)

lemma validName_no_sep: "validName P c \<Longrightarrow> sep P \<notin> set c"
  using validName_chars isPathSeparator_sep by blast

lemma toPosixRel_valid:
  assumes "cs \<noteq> []" "\<forall>c\<in>set cs. validName P c"
  shows "joinWith ''/'' (splitOn (\<lambda>c. c = sep P) (joinWith [sep P] cs)) = joinWith ''/'' cs"
proof -
  have "splitOn (\<lambda>c. c = sep P) (joinWith [sep P] cs) = cs"
    using assms validName_no_sep by (intro splitOn_joinWith) auto
  then show ?thesis by simp
qed

lemma path_dirname_file:
  assumes "f \<noteq> []" "CHR ''/'' \<notin> set f"
  shows "path_dirname Posix f = ''.''"
proof -
  obtain c cs where f: "f = c # cs" using assms(1) by (cases f) auto
  have c: "c \<noteq> CHR ''/''" and cs: "CHR ''/'' \<notin> set cs"
    using assms(2) f by auto
  have "dropWhile (\<lambda>c. c = CHR ''/'') (rev cs) = rev cs"
    using cs by (intro dropWhile_none) auto
  moreover have "dropWhile (\<lambda>c. c \<noteq> CHR ''/'') (rev cs) = []"
    using cs by (auto simp: dropWhile_eq_Nil_conv)
  ultimately show ?thesis
    unfolding path_dirname_def Let_def isPathSeparator_def
    using f c by simp
qed

lemma path_dirname_nested:
  assumes "d \<noteq> []" "hd d \<noteq> CHR ''/''" "f \<noteq> []" "CHR ''/'' \<notin> set f"
  shows "path_dirname Posix (d @ ''/'' @ f) = d"
proof -
  obtain c cs where d: "d = c # cs" using assms(1) by (cases d) auto
  have c: "c \<noteq> CHR ''/''" using assms(2) d by simp
  let ?r = "rev f @ CHR ''/'' # rev cs"
  have tl: "rev (tl (d @ ''/'' @ f)) = ?r"
    using d by simp
  obtain x xs where rf: "rev f = x # xs"
    using assms(3) by (cases "rev f") auto
  have x: "x \<noteq> CHR ''/''"
    using assms(4) rf by (metis list.set_intros(1) set_rev)
  have d1: "dropWhile (\<lambda>c. c = CHR ''/'') ?r = ?r"
    using rf x by simp
  have "\<forall>y\<in>set (rev f). y \<noteq> CHR ''/''"
    using assms(4) by auto
  then have d2: "dropWhile (\<lambda>c. c \<noteq> CHR ''/'') ?r = CHR ''/'' # rev cs"
    by (simp add: dropWhile_append_all)
  have len: "length (CHR ''/'' # rev cs) = length d"
    using d by simp
  show ?thesis
    unfolding path_dirname_def Let_def isPathSeparator_def tl
    using d c d1 d2 by simp
qed

lemma path_dirname_joined:
  assumes "\<forall>c\<in>set ds. validName P c" "validName P f"
  shows "path_dirname Posix (joinWith ''/'' (ds @ [f]))
         = (if ds = [] then ''.'' else joinWith ''/'' ds)"
proof (cases "ds = []")
  case True
  then show ?thesis
    using assms(2) validName_no_slash [of P f]
    by (simp add: path_dirname_file validName_def)
next
  case False
  have f: "f \<noteq> []" "CHR ''/'' \<notin> set f"
    using assms(2) validName_no_slash [of P f] by (simp_all add: validName_def)
  have hdv: "validName P (hd ds)"
    using False assms(1) by simp
  then have hdne: "hd ds \<noteq> []" by (simp add: validName_def)
  have ne: "joinWith ''/'' ds \<noteq> []"
    using False hdne by (rule joinWith_nonempty)
  have "hd (joinWith ''/'' ds) = hd (hd ds)"
    using False hdne by (rule hd_joinWith)
  moreover have "hd (hd ds) \<in> set (hd ds)"
    using hdne by simp
  ultimately have hd: "hd (joinWith ''/'' ds) \<noteq> CHR ''/''"
    using validName_no_slash [OF hdv] by metis
  have "joinWith ''/'' (ds @ [f]) = joinWith ''/'' ds @ ''/'' @ f"
    using False by (rule joinWith_snoc)
  then show ?thesis
    using False path_dirname_nested [OF ne hd f] by simp
qed

lemma joinWith_not_dot:
  assumes "ds \<noteq> []" "\<forall>c\<in>set ds. validName P c"
  shows "joinWith ''/'' ds \<noteq> ''.''"
proof (cases ds)
  case Nil
  with assms(1) show ?thesis by simp
next
  case (Cons c cs)
  show ?thesis
  proof (cases cs)
    case Nil
    with Cons assms(2) show ?thesis by (simp add: validName_def)
  next
    case (Cons e es)
    have "CHR ''/'' \<in> set (joinWith ''/'' ds)"
      using \<open>ds = c # cs\<close> Cons by simp
    then show ?thesis by auto
  qed
qed

section \<open>Template resolution\<close>

lemma resolveTemplate_priority:
  "resolveTemplate fs colocated defaultTemplate =
     (if existsSync fs colocated then colocated
      else if defaultTemplate \<noteq> [] \<and> existsSync fs defaultTemplate then defaultTemplate
      else [])"
  by (simp add: resolveTemplate_def)

lemma resolveTemplate_index_ts_colocated:
  "existsSync fs colocated \<Longrightarrow> resolveTemplate_index_ts fs colocated defaultTemplate = []"
  by (simp add: resolveTemplate_index_ts_def)

text \<open>
  In the module of \<^verbatim>\<open>src/unnamed/part_000\<close> the chain is the claimed one: the colocated
  \<open>index.html\<close> where it exists, else the default template where one is given and exists,
  else the empty-string sentinel.
\<close>

lemma resolvePage_template_priority:
  "template (resolvePage P fs absPagesDir pagesDir defaultTemplate relPosix) =
     (let colocated = path_join P [absPagesDir,
            joinWith [sep P] (splitOn (\<lambda>c. c = CHR ''/'') (path_dirname Posix relPosix)),
            ''index.html'']
      in if existsSync fs colocated then colocated
         else if defaultTemplate \<noteq> [] \<and> existsSync fs defaultTemplate then defaultTemplate
         else [])"
  by (simp add: resolvePage_def resolveTemplate_def Let_def)

lemma resolvePage_template_example:
  "map template
     (resolveItems Posix fsExample pagesExample ''/proj'' ''src/pages'' [''main.ts''] ''src/index.html'')
   = [''/proj/src/pages/index.html'', ''src/index.html'']"
  by code_simp

text \<open>
  C1 fails in \<^verbatim>\<open>src/src/index.ts\<close>: with an \<open>index.html\<close> beside the entry and an existing
  default template, its \<^verbatim>\<open>resolvePages\<close> gives the page the empty-string sentinel.
\<close>

theorem resolvePages_index_ts_ignores_colocated:
  "existsSync fsExample ''/proj/src/pages/index.html''
   \<and> existsSync fsExample ''src/index.html''
   \<and> (case resolvePages_index_ts Posix fsExample pagesExample ''/proj'' ''src/pages'' ''main.ts''
             ''src/index.html'' of
        Inl e \<Rightarrow> None
      | Inr pages \<Rightarrow> map_option template (pages ''index'')) = Some []"
  by code_simp

section \<open>Page names\<close>

text \<open>
  In the module of \<^verbatim>\<open>src/unnamed/part_000\<close> the scan returns, for every entry file, the
  names of its directories and its own name joined by slashes, on both platforms; the
  page name is \<open>index\<close> for an entry in the pages root and the slash-joined directory
  names for every other one.
\<close>

lemma concat_map_cong:
  "(\<And>x. x \<in> set xs \<Longrightarrow> g x = map f (h x)) \<Longrightarrow>
   concat (map g xs) = map f (concat (map h xs))"
  by (induction xs) auto

lemma walk_locations:
  "validTree P d \<Longrightarrow> \<forall>c\<in>set ds. validName P c \<Longrightarrow> relDir = joinWith [sep P] ds \<Longrightarrow>
   walk P targets relDir d
     = map (\<lambda>(ds', f). joinWith ''/'' (ds @ ds' @ [f])) (locations targets d)"
proof (induction P targets relDir d arbitrary: ds rule: walk.induct)
  case (1 P targets relDir ents)
  have v: "\<And>nm ent. (nm, ent) \<in> set ents \<Longrightarrow> validName P nm \<and> validTree P ent"
    using "1.prems"(1) by (auto simp: list_all_iff)
  show ?case
    unfolding walk.simps locations.simps
  proof (rule concat_map_cong)
    fix x assume x: "x \<in> set ents"
    obtain nm ent where xe: "x = (nm, ent)" by (cases x)
    have vn: "validName P nm" and vt: "validTree P ent"
      using v x xe by auto
    have join: "path_join P [relDir, nm] = joinWith [sep P] (ds @ [nm])"
      using "1.prems"(2,3) vn by (simp add: path_join_valid)
    have valid': "\<forall>c\<in>set (ds @ [nm]). validName P c"
      using "1.prems"(2) vn by auto
    show "(case x of (nm, ent) \<Rightarrow>
            if shouldSkip nm ent then []
            else if isDirectory ent then walk P targets (path_join P [relDir, nm]) ent
            else if isFile ent \<and> nm \<in> set targets
            then [joinWith ''/'' (splitOn (\<lambda>c. c = sep P) (path_join P [relDir, nm]))]
            else [])
          = map (\<lambda>(ds', f). joinWith ''/'' (ds @ ds' @ [f]))
              (case x of (nm, ent) \<Rightarrow>
                 if shouldSkip nm ent then []
                 else if isDirectory ent
                 then map (\<lambda>(ds, f). (nm # ds, f)) (locations targets ent)
                 else if isFile ent \<and> nm \<in> set targets then [([], nm)]
                 else [])"
    proof (cases "shouldSkip nm ent")
      case True
      then show ?thesis using xe by simp
    next
      case skip: False
      show ?thesis
      proof (cases "isDirectory ent")
        case True
        have "walk P targets (path_join P [relDir, nm]) ent
            = map (\<lambda>(ds', f). joinWith ''/'' ((ds @ [nm]) @ ds' @ [f])) (locations targets ent)"
          using "1.IH" [OF x xe [symmetric] skip True vt valid' join] .
        then show ?thesis
          using xe skip True by (simp add: case_prod_beta comp_def)
      next
        case False
        have "joinWith ''/'' (splitOn (\<lambda>c. c = sep P) (path_join P [relDir, nm]))
            = joinWith ''/'' (ds @ [nm])"
          unfolding join using valid' by (intro toPosixRel_valid) auto
        then show ?thesis
          using xe skip False by simp
      qed
    qed
  qed
next
  case (2 P targets relDir t)
  then show ?case by simp
qed simp_all

lemma locations_valid:
  "validTree P d \<Longrightarrow> (ds, f) \<in> set (locations targets d) \<Longrightarrow>
   (\<forall>c\<in>set ds. validName P c) \<and> validName P f"
proof (induction targets d arbitrary: ds f rule: locations.induct)
  case (1 targets ents)
  from "1.prems"(2) obtain nm ent where
    x: "(nm, ent) \<in> set ents" and
    m: "(ds, f) \<in> set (if shouldSkip nm ent then []
          else if isDirectory ent then map (\<lambda>(ds, f). (nm # ds, f)) (locations targets ent)
          else if isFile ent \<and> nm \<in> set targets then [([], nm)] else [])"
    by auto
  have vn: "validName P nm" and vt: "validTree P ent"
    using "1.prems"(1) x by (auto simp: list_all_iff)
  show ?case
  proof (cases "shouldSkip nm ent")
    case True
    with m show ?thesis by simp
  next
    case skip: False
    show ?thesis
    proof (cases "isDirectory ent")
      case True
      with m skip obtain ds' where ds: "ds = nm # ds'" and "(ds', f) \<in> set (locations targets ent)"
        by auto
      then have "(\<forall>c\<in>set ds'. validName P c) \<and> validName P f"
        using "1.IH" [OF x refl skip True vt] by blast
      with ds vn show ?thesis by simp
    next
      case False
      with m skip vn show ?thesis by (auto split: if_splits)
    qed
  qed
next
  case (2 targets t)
  then show ?case by simp
qed simp_all

lemma resolvePage_name:
  assumes "\<forall>c\<in>set ds. validName P c" "validName P f"
  shows "name (resolvePage P' fs absDir pagesDir dflt (joinWith ''/'' (ds @ [f])))
         = (if ds = [] then ''index'' else joinWith ''/'' ds)"
  using assms path_dirname_joined [OF assms] joinWith_not_dot [of ds P]
  by (simp add: resolvePage_def Let_def)

lemma page_names:
  assumes "validTree P pagesContent"
  shows "map name (resolveItems P fs pagesContent cwd pagesDir entryFiles defaultTemplate)
         = map (\<lambda>(ds, f). if ds = [] then ''index'' else joinWith ''/'' ds)
             (locations entryFiles pagesContent)"
proof -
  have w: "findEntryFiles P pagesContent entryFiles
      = map (\<lambda>(ds', f). joinWith ''/'' (ds' @ [f])) (locations entryFiles pagesContent)"
    using walk_locations [OF assms, of "[]" "[]" entryFiles]
    by (simp add: findEntryFiles_def)
  have "name (resolvePage P fs (path_resolve P cwd pagesDir) pagesDir defaultTemplate
                (joinWith ''/'' (ds @ [f])))
        = (if ds = [] then ''index'' else joinWith ''/'' ds)"
    if "(ds, f) \<in> set (locations entryFiles pagesContent)" for ds f
    using locations_valid [OF assms that] by (intro resolvePage_name) auto
  then show ?thesis
    unfolding resolveItems_def w by (auto simp: case_prod_beta)
qed

text \<open>The example tree on both platforms: the same names.\<close>

lemma page_names_example:
  "validTree Posix pagesExample \<and> validTree Win32 pagesExample
   \<and> map name (resolveItems Posix fs pagesExample cwd pagesDir [''main.ts''] d)
       = [''index'', ''a/b'']
   \<and> map name (resolveItems Win32 fs pagesExample cwd pagesDir [''main.ts''] d)
       = [''index'', ''a/b'']"
proof -
  have v: "validTree Posix pagesExample" "validTree Win32 pagesExample"
    by code_simp+
  have l: "locations [''main.ts''] pagesExample = [([], ''main.ts''), ([''a'', ''b''], ''main.ts'')]"
    by code_simp
  show ?thesis
    using v page_names [OF v(1), of fs cwd pagesDir "[''main.ts'']" d]
      page_names [OF v(2), of fs cwd pagesDir "[''main.ts'']" d]
    by (simp add: l)
qed

text \<open>
  C3 fails in \<^verbatim>\<open>src/src/index.ts\<close>: with Windows separators the entry in the nested
  directory \<open>a/b\<close> gets a name with a backslash.
\<close>

theorem resolvePages_index_ts_win32_name:
  "(case findEntryFiles_index_ts Win32 pagesExample ''main.ts'' of
      Inl e \<Rightarrow> []
    | Inr found \<Rightarrow> map (\<lambda>item. name (resolvePage_index_ts Win32 fs absDir pagesDir d item)) found)
   = [''index'', ''a'' @ [backslash] @ ''b'']"
  by (simp add: resolvePage_index_ts_def Let_def) code_simp

section \<open>Name collisions\<close>

text \<open>
  What the scan lists for a directory is what it lists for its entries, one after the
  other; the matches below a directory that the scan reads stand together in the list of
  all matches.
\<close>

lemma locations_Directory_append:
  "locations T (Directory (l @ r)) = locations T (Directory l) @ locations T (Directory r)"
  by simp

lemma locations_Directory_Cons:
  "locations T (Directory (e # r)) = locations T (Directory [e]) @ locations T (Directory r)"
  by simp

lemma locations_file:
  "f \<in> set T \<Longrightarrow> \<not> shouldSkip f File \<Longrightarrow> locations T (Directory [(f, File)]) = [([], f)]"
  by simp

lemma locations_subdir:
  "\<not> shouldSkip nm (Directory sub) \<Longrightarrow>
   locations T (Directory [(nm, Directory sub)])
     = map (\<lambda>(ds, f). (nm # ds, f)) (locations T (Directory sub))"
  by simp

lemma reaches_block:
  "reaches root ds ents \<Longrightarrow>
   \<exists>x z. locations T root = x @ map (\<lambda>(ds', f). (ds @ ds', f)) (locations T (Directory ents)) @ z"
proof (induction rule: reaches.induct)
  case (reaches_root ents)
  have "locations T (Directory ents)
      = [] @ map (\<lambda>(ds', f). ([] @ ds', f)) (locations T (Directory ents)) @ []"
    by (simp add: case_prod_beta)
  then show ?case by blast
next
  case (reaches_link t ds ents)
  then show ?case by simp
next
  case (reaches_sub root ds ents nm sub)
  then obtain x z where
    xz: "locations T root = x @ map (\<lambda>(ds', f). (ds @ ds', f)) (locations T (Directory ents)) @ z"
    by blast
  obtain l r where lr: "ents = l @ (nm, Directory sub) # r"
    using reaches_sub.hyps(2) by (meson split_list)
  have "locations T (Directory ents)
      = locations T (Directory l)
        @ map (\<lambda>(ds, f). (nm # ds, f)) (locations T (Directory sub))
        @ locations T (Directory r)"
    unfolding lr locations_Directory_append
    using locations_Directory_Cons [of T "(nm, Directory sub)" r]
      locations_subdir [OF reaches_sub.hyps(3), of T]
    by simp
  then have "locations T root
      = (x @ map (\<lambda>(ds', f). (ds @ ds', f)) (locations T (Directory l)))
        @ map (\<lambda>(ds', f). ((ds @ [nm]) @ ds', f)) (locations T (Directory sub))
        @ (map (\<lambda>(ds', f). (ds @ ds', f)) (locations T (Directory r)) @ z)"
    unfolding xz by (simp add: case_prod_beta comp_def)
  then show ?case by blast
qed

lemma reaches_two_files:
  assumes "reaches root ds ents"
    and "ents = a @ (f1, File) # b @ (f2, File) # c"
    and "f1 \<in> set T" "f2 \<in> set T" "\<not> shouldSkip f1 File" "\<not> shouldSkip f2 File"
  shows "\<exists>x y z. locations T root = x @ (ds, f1) # y @ (ds, f2) # z"
proof -
  obtain x z where
    xz: "locations T root = x @ map (\<lambda>(ds', f). (ds @ ds', f)) (locations T (Directory ents)) @ z"
    using reaches_block [OF assms(1)] by blast
  have "locations T (Directory ents)
      = locations T (Directory a) @ ([], f1) # locations T (Directory b)
        @ ([], f2) # locations T (Directory c)"
    unfolding assms(2) locations_Directory_append
    using locations_Directory_Cons [of T "(f1, File)" "b @ (f2, File) # c"]
      locations_Directory_Cons [of T "(f2, File)" c]
      locations_file [OF assms(3,5)] locations_file [OF assms(4,6)]
    by (simp add: locations_Directory_append del: locations.simps)
  then have "locations T root
      = (x @ map (\<lambda>(ds', f). (ds @ ds', f)) (locations T (Directory a)))
        @ (ds, f1) # map (\<lambda>(ds', f). (ds @ ds', f)) (locations T (Directory b))
        @ (ds, f2) # (map (\<lambda>(ds', f). (ds @ ds', f)) (locations T (Directory c)) @ z)"
    unfolding xz by simp
  then show ?thesis by blast
qed

lemma resolveItems_locations:
  assumes "validTree P root"
  shows "resolveItems P fs root cwd pagesDir T d
         = map (\<lambda>(ds, f). resolvePage P fs (path_resolve P cwd pagesDir) pagesDir d
                  (joinWith ''/'' (ds @ [f]))) (locations T root)"
  using walk_locations [OF assms, of "[]" "[]" T]
  by (simp add: resolveItems_def findEntryFiles_def case_prod_beta comp_def)

lemma resolvePage_name_entry:
  assumes "validTree P root" "(ds, f) \<in> set (locations T root)"
  shows "name (resolvePage P fs absDir pagesDir d (joinWith ''/'' (ds @ [f]))) = pageNameOf ds"
    and "entry (resolvePage P fs absDir pagesDir d (joinWith ''/'' (ds @ [f]))) = entryOf pagesDir ds f"
proof -
  have v: "\<forall>c\<in>set ds. validName P c" "validName P f"
    using locations_valid [OF assms] by auto
  show "name (resolvePage P fs absDir pagesDir d (joinWith ''/'' (ds @ [f]))) = pageNameOf ds"
    using resolvePage_name [OF v] by (simp add: pageNameOf_def)
  show "entry (resolvePage P fs absDir pagesDir d (joinWith ''/'' (ds @ [f]))) = entryOf pagesDir ds f"
    by (simp add: resolvePage_def entryOf_def Let_def)
qed

lemma resolveItems_names_entries:
  assumes "validTree P root"
  shows "map (\<lambda>p. (name p, entry p)) (resolveItems P fs root cwd pagesDir T d)
         = map (\<lambda>(ds, f). (pageNameOf ds, entryOf pagesDir ds f)) (locations T root)"
  unfolding resolveItems_locations [OF assms]
  using resolvePage_name_entry [OF assms]
  by (auto simp: case_prod_beta)

lemma last_match_wins:
  assumes "validTree P root"
    and "locations T root = x @ (ds, f) # z"
    and "pageNameOf ds \<notin> set (map (pageNameOf \<circ> fst) z)"
  shows "map_option (\<lambda>p. (name p, entry p))
           (resolvePages P fs root cwd pagesDir T d (pageNameOf ds))
         = Some (pageNameOf ds, entryOf pagesDir ds f)"
proof -
  let ?h = "\<lambda>(ds, f). resolvePage P fs (path_resolve P cwd pagesDir) pagesDir d
               (joinWith ''/'' (ds @ [f]))"
  let ?n = "pageNameOf ds"
  have items: "resolveItems P fs root cwd pagesDir T d = map ?h x @ ?h (ds, f) # map ?h z"
    unfolding resolveItems_locations [OF assms(1)] assms(2) by simp
  have mem: "(ds, f) \<in> set (locations T root)"
    using assms(2) by simp
  have nm: "name (?h (ds, f)) = ?n" and en: "entry (?h (ds, f)) = entryOf pagesDir ds f"
    using resolvePage_name_entry [OF assms(1) mem] by simp_all
  have "name (?h l) \<noteq> ?n" if "l \<in> set z" for l
  proof -
    obtain ds' f' where l: "l = (ds', f')" by (cases l)
    have "(ds', f') \<in> set (locations T root)"
      using that l assms(2) by simp
    then have "name (?h l) = pageNameOf ds'"
      using resolvePage_name_entry(1) [OF assms(1)] l by simp
    moreover have "pageNameOf ds' \<noteq> ?n"
      using assms(3) that l by force
    ultimately show ?thesis by simp
  qed
  then have fz: "filter (\<lambda>p. name p = ?n) (map ?h z) = []"
    by (auto simp: filter_empty_conv)
  have "filter (\<lambda>p. name p = ?n) (resolveItems P fs root cwd pagesDir T d)
      = filter (\<lambda>p. name p = ?n) (map ?h x) @ [?h (ds, f)]"
    unfolding items using nm fz by simp
  then have "resolvePages P fs root cwd pagesDir T d ?n = Some (?h (ds, f))"
    unfolding resolvePages_def fromEntries_last_wins by simp
  then show ?thesis
    using nm en by simp
qed

text \<open>
  C9: in every tree of well-formed names, the matches of a discovery pass are the entry
  files that the scan reaches, in scan order, and each derives the name of its directory
  (first statement); two entry files listed in one directory that the scan reads are
  both matched, in the order of the listing, and so derive the same name (second
  statement); the page index holds under that name the page of the match after which no
  later match derives it (third statement), and in general under any name the page of
  the last match deriving it, or nothing when no match derives it (fourth statement):
  earlier matches are overwritten and no error is raised.
\<close>

theorem resolvePages_last_wins:
  assumes "validTree P pagesContent"
  shows
    "map (\<lambda>p. (name p, entry p))
       (resolveItems P fs pagesContent cwd pagesDir entryFiles defaultTemplate)
      = map (\<lambda>(ds, f). (pageNameOf ds, entryOf pagesDir ds f))
          (locations entryFiles pagesContent)
     \<and> (reaches pagesContent ds ents \<and> ents = a @ (f1, File) # b @ (f2, File) # c
          \<and> f1 \<in> set entryFiles \<and> f2 \<in> set entryFiles
          \<and> \<not> shouldSkip f1 File \<and> \<not> shouldSkip f2 File \<longrightarrow>
        (\<exists>x y z. locations entryFiles pagesContent = x @ (ds, f1) # y @ (ds, f2) # z))
     \<and> (locations entryFiles pagesContent = x @ (ds, f2) # z
          \<and> pageNameOf ds \<notin> set (map (pageNameOf \<circ> fst) z) \<longrightarrow>
        map_option (\<lambda>p. (name p, entry p))
          (resolvePages P fs pagesContent cwd pagesDir entryFiles defaultTemplate (pageNameOf ds))
        = Some (pageNameOf ds, entryOf pagesDir ds f2))
     \<and> resolvePages P fs pagesContent cwd pagesDir entryFiles defaultTemplate n =
         (if filter (\<lambda>it. name it = n)
               (resolveItems P fs pagesContent cwd pagesDir entryFiles defaultTemplate) = []
          then None
          else Some (last (filter (\<lambda>it. name it = n)
                 (resolveItems P fs pagesContent cwd pagesDir entryFiles defaultTemplate))))"
proof (intro conjI impI)
  show "map (\<lambda>p. (name p, entry p))
       (resolveItems P fs pagesContent cwd pagesDir entryFiles defaultTemplate)
      = map (\<lambda>(ds, f). (pageNameOf ds, entryOf pagesDir ds f))
          (locations entryFiles pagesContent)"
    using assms by (rule resolveItems_names_entries)
  show "\<exists>x y z. locations entryFiles pagesContent = x @ (ds, f1) # y @ (ds, f2) # z"
    if "reaches pagesContent ds ents \<and> ents = a @ (f1, File) # b @ (f2, File) # c
          \<and> f1 \<in> set entryFiles \<and> f2 \<in> set entryFiles
          \<and> \<not> shouldSkip f1 File \<and> \<not> shouldSkip f2 File"
    using that reaches_two_files [of pagesContent ds ents a f1 b f2 c entryFiles] by blast
  show "map_option (\<lambda>p. (name p, entry p))
          (resolvePages P fs pagesContent cwd pagesDir entryFiles defaultTemplate (pageNameOf ds))
        = Some (pageNameOf ds, entryOf pagesDir ds f2)"
    if "locations entryFiles pagesContent = x @ (ds, f2) # z
          \<and> pageNameOf ds \<notin> set (map (pageNameOf \<circ> fst) z)"
    using that last_match_wins [OF assms, of entryFiles x ds f2 z] by blast
  show "resolvePages P fs pagesContent cwd pagesDir entryFiles defaultTemplate n =
         (if filter (\<lambda>it. name it = n)
               (resolveItems P fs pagesContent cwd pagesDir entryFiles defaultTemplate) = []
          then None
          else Some (last (filter (\<lambda>it. name it = n)
                 (resolveItems P fs pagesContent cwd pagesDir entryFiles defaultTemplate))))"
    unfolding resolvePages_def by (rule fromEntries_last_wins)
qed

theorem resolvePages_last_wins_witness:
  "validTree Posix pagesExample
   \<and> reaches pagesExample []
       ([] @ (''main.ts'', File) # [] @ (''main.tsx'', File)
          # [(''index.html'', File), (''a'', Directory [(''b'', Directory [(''main.ts'', File)])])])
   \<and> (\<exists>x y z. locations [''main.ts'', ''main.tsx''] pagesExample
         = x @ ([], ''main.ts'') # y @ ([], ''main.tsx'') # z)
   \<and> locations [''main.ts'', ''main.tsx''] pagesExample
       = [([], ''main.ts'')] @ ([], ''main.tsx'') # [([''a'', ''b''], ''main.ts'')]
   \<and> map (\<lambda>p. (name p, entry p))
        (resolveItems Posix fsExample pagesExample ''/proj'' ''src/pages''
           [''main.ts'', ''main.tsx''] [])
       = [(''index'', ''/src/pages/main.ts''), (''index'', ''/src/pages/main.tsx''),
          (''a/b'', ''/src/pages/a/b/main.ts'')]
   \<and> map_option (\<lambda>p. (name p, entry p))
        (resolvePages Posix fsExample pagesExample ''/proj'' ''src/pages''
           [''main.ts'', ''main.tsx''] [] ''index'')
       = Some (''index'', ''/src/pages/main.tsx'')"
proof -
  let ?rest = "[(''index.html'', File), (''a'', Directory [(''b'', Directory [(''main.ts'', File)])])]"
  let ?T = "[''main.ts'', ''main.tsx'']"
  have v: "validTree Posix pagesExample"
    by code_simp
  have r: "reaches pagesExample []
       ([] @ (''main.ts'', File) # [] @ (''main.tsx'', File) # ?rest)"
    unfolding pagesExample_def by (simp add: reaches_root)
  have skip: "\<not> shouldSkip ''main.ts'' File" "\<not> shouldSkip ''main.tsx'' File"
    by (simp_all add: shouldSkip_def)
  have l: "locations ?T pagesExample
       = [([], ''main.ts'')] @ ([], ''main.tsx'') # [([''a'', ''b''], ''main.ts'')]"
    by code_simp
  have names: "pageNameOf [] = ''index''" "pageNameOf [''a'', ''b''] = ''a/b''"
    by (simp_all add: pageNameOf_def)
  have entries: "entryOf ''src/pages'' [] ''main.ts'' = ''/src/pages/main.ts''"
    "entryOf ''src/pages'' [] ''main.tsx'' = ''/src/pages/main.tsx''"
    "entryOf ''src/pages'' [''a'', ''b''] ''main.ts'' = ''/src/pages/a/b/main.ts''"
    by code_simp+
  have last: "pageNameOf [] \<notin> set (map (pageNameOf \<circ> fst) [([''a'', ''b''], ''main.ts'')])"
    by (simp add: names)
  note T = resolvePages_last_wins [OF v, where fs = fsExample and cwd = "''/proj''"
      and pagesDir = "''src/pages''" and entryFiles = ?T and defaultTemplate = "[]"
      and ds = "[]" and ents = "[] @ (''main.ts'', File) # [] @ (''main.tsx'', File) # ?rest"
      and a = "[]" and ?f1.0 = "''main.ts''" and b = "[]" and ?f2.0 = "''main.tsx''" and c = ?rest
      and x = "[([], ''main.ts'')]" and z = "[([''a'', ''b''], ''main.ts'')]"]
  have items: "map (\<lambda>p. (name p, entry p))
        (resolveItems Posix fsExample pagesExample ''/proj'' ''src/pages'' ?T [])
       = [(''index'', ''/src/pages/main.ts''), (''index'', ''/src/pages/main.tsx''),
          (''a/b'', ''/src/pages/a/b/main.ts'')]"
    using T [THEN conjunct1] l names entries by simp
  have win: "map_option (\<lambda>p. (name p, entry p))
        (resolvePages Posix fsExample pagesExample ''/proj'' ''src/pages'' ?T [] ''index'')
       = Some (''index'', ''/src/pages/main.tsx'')"
    using T [THEN conjunct2, THEN conjunct2, THEN conjunct1] l last names entries by simp
  have two: "\<exists>x y z. locations ?T pagesExample
       = x @ ([], ''main.ts'') # y @ ([], ''main.tsx'') # z"
    using T [THEN conjunct2, THEN conjunct1] r skip by simp
  show ?thesis
    using v r two l items win by blast
qed

section \<open>The request resolver\<close>

text \<open>For a request with at most one question mark the resolver does what C4 says.\<close>

lemma parsePageMeta_no_query:
  assumes "CHR ''?'' \<notin> set path"
  shows "parsePageMeta path
         = (canonicalPath path, stripHtmlSuffix (stripLeadingSlash (canonicalPath path)))"
proof -
  have "splitOn (\<lambda>c. c = CHR ''?'') path = [path]"
    using assms by (intro splitOn_no_sep) auto
  then show ?thesis
    by (simp add: parsePageMeta_def canonicalPath_def Let_def)
qed

lemma parsePageMeta_one_query:
  assumes "CHR ''?'' \<notin> set path" "CHR ''?'' \<notin> set query"
  shows "parsePageMeta (path @ ''?'' @ query)
         = (canonicalPath path @ (if query = [] then [] else ''?'' @ query),
            stripHtmlSuffix (stripLeadingSlash (canonicalPath path)))"
proof -
  have "splitOn (\<lambda>c. c = CHR ''?'') query = [query]"
    using assms(2) by (intro splitOn_no_sep) auto
  moreover have "splitOn (\<lambda>c. c = CHR ''?'') (path @ CHR ''?'' # query)
      = path # splitOn (\<lambda>c. c = CHR ''?'') query"
    using assms(1) by (intro splitOn_append_sep) auto
  ultimately show ?thesis
    by (simp add: parsePageMeta_def canonicalPath_def Let_def)
qed

lemma parsePageMeta_examples:
  "parsePageMeta ''/'' = (''/index.html'', ''index'')"
  "parsePageMeta [] = (''/index.html'', ''index'')"
  "parsePageMeta ''/foo'' = (''/foo.html'', ''foo'')"
  "parsePageMeta ''/foo/'' = (''/foo.html'', ''foo'')"
  "parsePageMeta ''/a/b.html?x=1'' = (''/a/b.html?x=1'', ''a/b'')"
  by code_simp+

text \<open>
  C4 fails on a request with a second question mark: the query string is cut at it.
\<close>

theorem parsePageMeta_second_question_mark:
  "parsePageMeta ''/a/b.html?x=1?y=2'' = (''/a/b.html?x=1'', ''a/b'')"
  by code_simp

section \<open>The production adapter\<close>

text \<open>
  The hooks on every identifier whose page name is not a property of \<^verbatim>\<open>Object.prototype\<close>,
  and on those that are.
\<close>

lemma resolveId_claims_html:
  "resolveId ident = (if endsWith ident ''.html'' then Some ident else None)"
  by (simp add: resolveId_def)

lemma endsWith_append_self: "endsWith (a @ t) t"
  by (simp add: endsWith_def)

lemma load_not_html:
  "\<not> endsWith ident ''.html'' \<Longrightarrow> load fs pages ident s = (Inr None, s)"
  by (simp add: load_def)

lemma load_declines:
  "pages nm = None \<Longrightarrow> nm \<notin> set objectPrototypeKeys \<Longrightarrow>
   load fs pages (nm @ ''.html'') s = (Inr None, s)"
  by (simp add: load_def endsWith_append_self getProperty_def)

lemma load_renders:
  "pages nm = Some page \<Longrightarrow>
   load fs pages (nm @ ''.html'') s =
     (case loadHtmlContent fs page False ''/'' (Some Raiser) s of
        (Inl e, s') \<Rightarrow> (Inl e, s')
      | (Inr html, s') \<Rightarrow> (Inr (Some html), s'))"
  by (simp add: load_def endsWith_append_self getProperty_def)

lemma load_raises:
  "pages nm = None \<Longrightarrow> nm \<in> set objectPrototypeKeys \<Longrightarrow>
   load fs pages (nm @ ''.html'') s = (Inl TypeError, s)"
  by (simp add: load_def endsWith_append_self getProperty_def)

text \<open>
  C5 fails on an identifier whose page name is a property of \<^verbatim>\<open>Object.prototype\<close>: no such
  page exists, yet the \<^verbatim>\<open>load\<close> hook raises instead of returning \<^verbatim>\<open>null\<close>.
\<close>

theorem load_inherited_property:
  "indexExample ''constructor'' = None
   \<and> load fs indexExample ''constructor.html'' s = (Inl TypeError, s)"
  by (simp add: indexExample_def fromEntries_def load_def endsWith_def getProperty_def
      objectPrototypeKeys_def)

text \<open>In \<^verbatim>\<open>src/src/index.ts\<close> the page name is not the identifier without its suffix.\<close>

lemma loadPageName_index_ts_example:
  "loadPageName_index_ts ''x.htmly.html'' = ''xy.html''"
  by code_simp

section \<open>The matcher and the meaning of a regular expression\<close>

inductive_cases matches_NoMatchE: "matches NoMatch w"
inductive_cases matches_EpsE: "matches Eps w"
inductive_cases matches_ChE: "matches (Ch k) w"
inductive_cases matches_SeqE: "matches (Seq r s) w"
inductive_cases matches_AltE: "matches (Alt r s) w"

lemma matches_NoMatch: "\<not> matches NoMatch w"
  by (auto elim: matches_NoMatchE)

lemma matches_Eps: "matches Eps w \<longleftrightarrow> w = []"
  by (auto elim: matches_EpsE intro: m_Eps)

lemma matches_Ch: "matches (Ch k) w \<longleftrightarrow> (\<exists>c. w = [c] \<and> cmatch k c)"
  by (auto elim: matches_ChE intro: m_Ch)

lemma matches_Seq: "matches (Seq r s) w \<longleftrightarrow> (\<exists>u v. w = u @ v \<and> matches r u \<and> matches s v)"
  by (blast elim: matches_SeqE intro: m_Seq)

lemma matches_Alt: "matches (Alt r s) w \<longleftrightarrow> matches r w \<or> matches s w"
  by (auto elim: matches_AltE intro: m_AltL m_AltR)

lemma matches_seq: "matches (seq r s) w \<longleftrightarrow> matches (Seq r s) w"
  by (cases r) (auto simp: matches_Seq matches_NoMatch matches_Eps)

lemma matches_alt: "matches (alt r s) w \<longleftrightarrow> matches r w \<or> matches s w"
  by (induction r s rule: alt.induct) (auto simp: matches_Alt matches_NoMatch)

lemma matches_Star_Cons_aux:
  "matches R x \<Longrightarrow> R = Star r \<Longrightarrow> x = c # w \<Longrightarrow>
   \<exists>u v. w = u @ v \<and> matches r (c # u) \<and> matches (Star r) v"
proof (induction arbitrary: w rule: matches.induct)
  case (m_StarStep r' u v)
  show ?case
  proof (cases u)
    case Nil
    with m_StarStep show ?thesis by simp
  next
    case (Cons a u')
    with m_StarStep.prems have "a = c" "w = u' @ v" by simp_all
    with m_StarStep.hyps m_StarStep.prems Cons show ?thesis by blast
  qed
qed simp_all

lemma matches_Star_Cons:
  "matches (Star r) (c # w) \<longleftrightarrow> (\<exists>u v. w = u @ v \<and> matches r (c # u) \<and> matches (Star r) v)"
proof
  assume "matches (Star r) (c # w)"
  then show "\<exists>u v. w = u @ v \<and> matches r (c # u) \<and> matches (Star r) v"
    by (rule matches_Star_Cons_aux) simp_all
next
  assume "\<exists>u v. w = u @ v \<and> matches r (c # u) \<and> matches (Star r) v"
  then obtain u v where "w = u @ v" "matches r (c # u)" "matches (Star r) v" by blast
  then show "matches (Star r) (c # w)"
    using m_StarStep [of r "c # u" v] by simp
qed

lemma nullable_iff: "nullable r \<longleftrightarrow> matches r []"
  by (induction r) (auto simp: matches_NoMatch matches_Eps matches_Ch matches_Seq matches_Alt
      intro: m_StarNil)

lemma matches_Seq_Cons:
  "matches (Seq r s) (c # w) \<longleftrightarrow>
     (matches r [] \<and> matches s (c # w))
     \<or> (\<exists>u v. w = u @ v \<and> matches r (c # u) \<and> matches s v)"
proof
  assume "matches (Seq r s) (c # w)"
  then obtain u v where uv: "c # w = u @ v" "matches r u" "matches s v"
    by (auto simp: matches_Seq)
  show "(matches r [] \<and> matches s (c # w))
     \<or> (\<exists>u v. w = u @ v \<and> matches r (c # u) \<and> matches s v)"
  proof (cases u)
    case Nil
    with uv show ?thesis by simp
  next
    case (Cons a u')
    with uv have "a = c" "w = u' @ v" by simp_all
    with uv Cons show ?thesis by blast
  qed
next
  assume "(matches r [] \<and> matches s (c # w))
     \<or> (\<exists>u v. w = u @ v \<and> matches r (c # u) \<and> matches s v)"
  then show "matches (Seq r s) (c # w)"
  proof
    assume "matches r [] \<and> matches s (c # w)"
    then show ?thesis using m_Seq [of r "[]" s "c # w"] by simp
  next
    assume "\<exists>u v. w = u @ v \<and> matches r (c # u) \<and> matches s v"
    then obtain u v where "w = u @ v" "matches r (c # u)" "matches s v" by blast
    then show ?thesis using m_Seq [of r "c # u" s v] by simp
  qed
qed

lemma deriv_iff: "matches (deriv c r) w \<longleftrightarrow> matches r (c # w)"
proof (induction r arbitrary: w)
  case NoMatch
  then show ?case by (simp add: matches_NoMatch)
next
  case Eps
  then show ?case by (simp add: matches_NoMatch matches_Eps)
next
  case (Ch k)
  then show ?case by (simp add: matches_NoMatch matches_Eps matches_Ch)
next
  case (Seq r s)
  then show ?case
    by (simp add: matches_alt matches_seq matches_Seq_Cons nullable_iff)
      (auto simp: matches_Seq)
next
  case (Alt r s)
  then show ?case by (simp add: matches_alt matches_Alt)
next
  case (Star r)
  then show ?case
    by (simp add: matches_seq matches_Star_Cons) (auto simp: matches_Seq)
qed

lemma isNoMatch_iff: "isNoMatch r \<longleftrightarrow> r = NoMatch"
  by (cases r) simp_all

lemma matchesPrefix_iff: "matchesPrefix r s \<longleftrightarrow> (\<exists>u v. s = u @ v \<and> matches r u)"
proof (induction s arbitrary: r)
  case Nil
  then show ?case by (simp add: nullable_iff)
next
  case (Cons c cs)
  have "(\<exists>u v. c # cs = u @ v \<and> matches r u)
      \<longleftrightarrow> matches r [] \<or> (\<exists>u v. cs = u @ v \<and> matches r (c # u))"
    by (auto simp: Cons_eq_append_conv)
  then show ?case
    using Cons [of "deriv c r"]
    by (auto simp: isNoMatch_iff matches_NoMatch nullable_iff deriv_iff)
qed

lemma regexTest_iff: "regexTest r s \<longleftrightarrow> (\<exists>a u b. s = a @ u @ b \<and> matches r u)"
proof (induction s)
  case Nil
  then show ?case by (simp add: nullable_iff)
next
  case (Cons c cs)
  have "(\<exists>a u b. c # cs = a @ u @ b \<and> matches r u)
      \<longleftrightarrow> (\<exists>u b. c # cs = u @ b \<and> matches r u) \<or> (\<exists>a u b. cs = a @ u @ b \<and> matches r u)"
  proof
    assume "\<exists>a u b. c # cs = a @ u @ b \<and> matches r u"
    then obtain a u b where h: "c # cs = a @ u @ b" "matches r u" by blast
    show "(\<exists>u b. c # cs = u @ b \<and> matches r u) \<or> (\<exists>a u b. cs = a @ u @ b \<and> matches r u)"
    proof (cases a)
      case Nil
      with h show ?thesis by auto
    next
      case (Cons x a')
      with h have "cs = a' @ u @ b" by simp
      with h show ?thesis by blast
    qed
  next
    assume "(\<exists>u b. c # cs = u @ b \<and> matches r u) \<or> (\<exists>a u b. cs = a @ u @ b \<and> matches r u)"
    then show "\<exists>a u b. c # cs = a @ u @ b \<and> matches r u"
    proof
      assume "\<exists>u b. c # cs = u @ b \<and> matches r u"
      then obtain u b where "c # cs = [] @ u @ b" "matches r u" by auto
      then show ?thesis by blast
    next
      assume "\<exists>a u b. cs = a @ u @ b \<and> matches r u"
      then obtain a u b where "c # cs = (c # a) @ u @ b" "matches r u" by auto
      then show ?thesis by blast
    qed
  qed
  then show ?case
    using Cons matchesPrefix_iff [of r "c # cs"] by simp
qed

section \<open>Script injection\<close>

text \<open>
  The pattern that \<^verbatim>\<open>isScriptAlreadyInjected\<close> builds is always well formed, and it matches
  the tag that \<^verbatim>\<open>injectScriptTag\<close> builds for the same script source.
\<close>

lemma backslash_syntax: "backslash \<in> set syntaxCharacters"
  by (simp add: syntaxCharacters_def)

lemma parseLiteralPattern_plain:
  "c \<notin> set syntaxCharacters \<Longrightarrow>
   parseLiteralPattern (c # rest) k = map_option (Seq (Ch (Lit c))) (parseLiteralPattern rest k)"
  using backslash_syntax by (cases rest) auto

lemma parseLiteralPattern_escaped:
  "c \<in> set syntaxCharacters \<Longrightarrow>
   parseLiteralPattern (backslash # c # rest) k
     = map_option (Seq (Ch (Lit c))) (parseLiteralPattern rest k)"
  by simp

lemma parseLiteralPattern_escapeRegExp:
  "parseLiteralPattern (escapeRegExp s) k = Some (lits s k)"
proof (induction s)
  case Nil
  then show ?case by (simp add: escapeRegExp_def)
next
  case (Cons c cs)
  have e: "escapeRegExp (c # cs)
      = (if c \<in> set syntaxCharacters then [backslash, c] else [c]) @ escapeRegExp cs"
    by (simp add: escapeRegExp_def)
  show ?case
  proof (cases "c \<in> set syntaxCharacters")
    case True
    then have "parseLiteralPattern (backslash # c # escapeRegExp cs) k
        = map_option (Seq (Ch (Lit c))) (parseLiteralPattern (escapeRegExp cs) k)"
      by (rule parseLiteralPattern_escaped)
    with True Cons show ?thesis
      unfolding e by simp
  next
    case False
    then have "parseLiteralPattern (c # escapeRegExp cs) k
        = map_option (Seq (Ch (Lit c))) (parseLiteralPattern (escapeRegExp cs) k)"
      by (rule parseLiteralPattern_plain)
    with False Cons show ?thesis
      unfolding e by simp
  qed
qed

lemma injectedPattern_total:
  "injectedPattern scriptSrc = Some (patternHead (lits scriptSrc patternTail))"
  by (simp add: injectedPattern_def parseLiteralPattern_escapeRegExp)

lemma matches_lits: "matches k w \<Longrightarrow> matches (lits s k) (s @ w)"
proof (induction s)
  case Nil
  then show ?case by simp
next
  case (Cons c cs)
  then have "matches (lits cs k) (cs @ w)" by simp
  moreover have "matches (Ch (Lit c)) [c]"
    by (simp add: matches_Ch)
  ultimately have "matches (Seq (Ch (Lit c)) (lits cs k)) ([c] @ cs @ w)"
    by (rule m_Seq [rotated])
  then show ?case by simp
qed

lemma matches_quote: "matches k w \<Longrightarrow> matches (Seq quoteChar k) (CHR 0x22 # w)"
proof -
  assume "matches k w"
  moreover have "matches quoteChar [CHR 0x22]"
    by (simp add: quoteChar_def matches_Ch)
  ultimately have "matches (Seq quoteChar k) ([CHR 0x22] @ w)"
    by (rule m_Seq [rotated])
  then show ?thesis by simp
qed

lemma matches_Star_skip: "matches k w \<Longrightarrow> matches (Seq (Star r) k) w"
  using m_Seq [OF m_StarNil, of k w r] by simp

lemma matches_notGt_space: "matches k w \<Longrightarrow> matches (Seq notGt k) (CHR '' '' # w)"
proof -
  assume k: "matches k w"
  have "matches (Ch (NoneOf ''>'')) '' ''"
    by (simp add: matches_Ch canonicalize_def)
  then have "matches notGt ('' '' @ [])"
    unfolding notGt_def by (intro m_StarStep m_StarNil)
  then have "matches (Seq notGt k) (('' '' @ []) @ w)"
    using k by (rule m_Seq)
  then show ?thesis by simp
qed

lemma matches_space: "matches k w \<Longrightarrow> matches (Seq (Ch Space) k) (CHR '' '' # w)"
proof -
  assume k: "matches k w"
  have "matches (Ch Space) '' ''"
    by (simp add: matches_Ch)
  then have "matches (Seq (Ch Space) k) ('' '' @ w)"
    using k by (rule m_Seq)
  then show ?thesis by simp
qed

lemma matches_patternTail: \<open>matches patternTail ''"></script>''\<close>
proof -
  have "matches (lits ''</script>'' Eps) (''</script>'' @ [])"
    by (intro matches_lits) (simp add: matches_Eps)
  then have "matches (Seq (Star (Ch Space)) (lits ''</script>'' Eps)) ''</script>''"
    by (intro matches_Star_skip) simp
  then have "matches (lits ''>'' (Seq (Star (Ch Space)) (lits ''</script>'' Eps))) (''>'' @ ''</script>'')"
    by (rule matches_lits)
  then have "matches (Seq notGt (lits ''>'' (Seq (Star (Ch Space)) (lits ''</script>'' Eps))))
       (''>'' @ ''</script>'')"
    unfolding notGt_def by (rule matches_Star_skip)
  then show ?thesis
    unfolding patternTail_def using matches_quote by fastforce
qed

lemma matches_patternHead:
  assumes "matches X w"
  shows \<open>matches (patternHead X) (''<script type="module" src="'' @ w)\<close>
proof -
  have "matches (Seq quoteChar X) (CHR 0x22 # w)"
    using assms by (rule matches_quote)
  then have "matches (lits ''src='' (Seq quoteChar X)) (''src='' @ CHR 0x22 # w)"
    by (rule matches_lits)
  then have "matches (Seq notGt (lits ''src='' (Seq quoteChar X))) (CHR '' '' # ''src='' @ CHR 0x22 # w)"
    by (rule matches_notGt_space)
  then have "matches (Seq quoteChar (Seq notGt (lits ''src='' (Seq quoteChar X))))
      (CHR 0x22 # CHR '' '' # ''src='' @ CHR 0x22 # w)"
    by (rule matches_quote)
  then have "matches (lits ''module'' (Seq quoteChar (Seq notGt (lits ''src='' (Seq quoteChar X)))))
      (''module'' @ CHR 0x22 # CHR '' '' # ''src='' @ CHR 0x22 # w)"
    by (rule matches_lits)
  then have "matches (Seq quoteChar (lits ''module'' (Seq quoteChar (Seq notGt
        (lits ''src='' (Seq quoteChar X))))))
      (CHR 0x22 # ''module'' @ CHR 0x22 # CHR '' '' # ''src='' @ CHR 0x22 # w)"
    by (rule matches_quote)
  then have "matches (lits ''type='' (Seq quoteChar (lits ''module'' (Seq quoteChar (Seq notGt
        (lits ''src='' (Seq quoteChar X)))))))
      (''type='' @ CHR 0x22 # ''module'' @ CHR 0x22 # CHR '' '' # ''src='' @ CHR 0x22 # w)"
    by (rule matches_lits)
  then have "matches (Seq notGt (lits ''type='' (Seq quoteChar (lits ''module'' (Seq quoteChar
        (Seq notGt (lits ''src='' (Seq quoteChar X))))))))
      (''type='' @ CHR 0x22 # ''module'' @ CHR 0x22 # CHR '' '' # ''src='' @ CHR 0x22 # w)"
    unfolding notGt_def by (rule matches_Star_skip)
  then have "matches (Seq (Star (Ch Space)) (Seq notGt (lits ''type='' (Seq quoteChar
        (lits ''module'' (Seq quoteChar (Seq notGt (lits ''src='' (Seq quoteChar X)))))))))
      (''type='' @ CHR 0x22 # ''module'' @ CHR 0x22 # CHR '' '' # ''src='' @ CHR 0x22 # w)"
    by (rule matches_Star_skip)
  then have "matches (Seq (Ch Space) (Seq (Star (Ch Space)) (Seq notGt (lits ''type=''
        (Seq quoteChar (lits ''module'' (Seq quoteChar (Seq notGt
          (lits ''src='' (Seq quoteChar X))))))))))
      (CHR '' '' # ''type='' @ CHR 0x22 # ''module'' @ CHR 0x22 # CHR '' '' # ''src='' @ CHR 0x22 # w)"
    by (rule matches_space)
  then have "matches (patternHead X)
      (''<script'' @ CHR '' '' # ''type='' @ CHR 0x22 # ''module'' @ CHR 0x22 # CHR '' '' # ''src='' @ CHR 0x22 # w)"
    unfolding patternHead_def by (rule matches_lits)
  then show ?thesis by simp
qed

lemma matches_scriptTag:
  "matches (patternHead (lits scriptSrc patternTail)) (scriptTag scriptSrc)"
proof -
  have \<open>matches (lits scriptSrc patternTail) (scriptSrc @ ''"></script>'')\<close>
    using matches_patternTail by (rule matches_lits)
  then show ?thesis
    unfolding scriptTag_def by (rule matches_patternHead)
qed

lemma isScriptAlreadyInjected_tag:
  "isScriptAlreadyInjected (a @ scriptTag scriptSrc @ b) scriptSrc"
  unfolding isScriptAlreadyInjected_def injectedPattern_total
  using matches_scriptTag by (auto simp: regexTest_iff)

lemma isScriptAlreadyInjected_iff:
  "isScriptAlreadyInjected html scriptSrc \<longleftrightarrow>
     (\<exists>a u b. html = a @ u @ b \<and> matches (patternHead (lits scriptSrc patternTail)) u)"
  by (simp add: isScriptAlreadyInjected_def injectedPattern_total regexTest_iff)

lemma getSubstitution_no_dollar:
  "CHR ''$'' \<notin> set r \<Longrightarrow> getSubstitution m pre post r = r"
  by (induction m pre post r rule: getSubstitution.induct) auto

lemma scriptTag_no_dollar:
  "CHR ''$'' \<notin> set scriptSrc \<Longrightarrow> CHR ''$'' \<notin> set (scriptTag scriptSrc @ [newline] @ ''  </body>'')"
  by (simp add: scriptTag_def newline_def)

lemma injectScriptTag_contains:
  assumes "CHR ''$'' \<notin> set scriptSrc"
  shows "\<exists>a b. injectScriptTag html scriptSrc = a @ scriptTag scriptSrc @ b"
proof (cases "firstMatchCI ''</body>'' html")
  case None
  then have "injectScriptTag html scriptSrc = (html @ [newline]) @ scriptTag scriptSrc @ [newline]"
    by (simp add: injectScriptTag_def)
  then show ?thesis by blast
next
  case (Some t)
  obtain pre m post where t: "t = (pre, m, post)" by (cases t)
  have "getSubstitution m pre post (scriptTag scriptSrc @ [newline] @ ''  </body>'')
      = scriptTag scriptSrc @ [newline] @ ''  </body>''"
    using scriptTag_no_dollar [OF assms] by (rule getSubstitution_no_dollar)
  then have "injectScriptTag html scriptSrc
      = pre @ scriptTag scriptSrc @ ([newline] @ ''  </body>'' @ post)"
    using Some t by (simp add: injectScriptTag_def)
  then show ?thesis by blast
qed

text \<open>
  For a script source without a dollar sign the injection step is idempotent.
\<close>

lemma injectOnce_idempotent:
  assumes "CHR ''$'' \<notin> set scriptSrc"
  shows "injectOnce (injectOnce html scriptSrc) scriptSrc = injectOnce html scriptSrc"
proof (cases "isScriptAlreadyInjected html scriptSrc")
  case True
  then show ?thesis by (simp add: injectOnce_def)
next
  case False
  obtain a b where "injectScriptTag html scriptSrc = a @ scriptTag scriptSrc @ b"
    using injectScriptTag_contains [OF assms] by blast
  then have "isScriptAlreadyInjected (injectScriptTag html scriptSrc) scriptSrc"
    by (simp add: isScriptAlreadyInjected_tag)
  with False show ?thesis by (simp add: injectOnce_def)
qed

lemma injectOnce_idempotent_example:
  "injectOnce (injectOnce templateFallback ''/src/pages/main.ts'') ''/src/pages/main.ts''
     = injectOnce templateFallback ''/src/pages/main.ts''"
  by (rule injectOnce_idempotent) simp

text \<open>
  The replacement text that \<^verbatim>\<open>injectScriptTag\<close> hands to \<^verbatim>\<open>replace\<close> holds the script source,
  and \<^verbatim>\<open>replace\<close> reads \<^verbatim>\<open>$$\<close> in it as one dollar sign: the tag inserted is not the tag
  that \<^verbatim>\<open>isScriptAlreadyInjected\<close> looks for.
\<close>

lemma injectOnce_dollar_example:
  "injectOnce ''<body></body>'' ''/src/pages/$$/main.ts''
     = ''<body>'' @ scriptTag ''/src/pages/$/main.ts'' @ [newline] @ ''  </body>''"
  by code_simp

text \<open>
  The check wants \<^verbatim>\<open>type\<close> before \<^verbatim>\<open>src\<close>: a tag with the attributes in the other order
  is not recognised.
\<close>

lemma isScriptAlreadyInjected_attribute_order:
  \<open>isScriptAlreadyInjected ''<script type="module" src="/a.ts"></script>'' ''/a.ts''
   \<and> isScriptAlreadyInjected ''<SCRIPT  TYPE='module' defer SRC='/A.TS' ></SCRIPT>'' ''/a.ts''
   \<and> \<not> isScriptAlreadyInjected ''<script src="/a.ts" type="module"></script>'' ''/a.ts''\<close>
  by code_simp

text \<open>
  C2 fails for a script source that holds \<^verbatim>\<open>$$\<close>: the second injection adds a second
  tag.
\<close>

theorem injectOnce_not_idempotent:
  "injectOnce (injectOnce ''<body></body>'' ''/src/pages/$$/main.ts'') ''/src/pages/$$/main.ts''
     \<noteq> injectOnce ''<body></body>'' ''/src/pages/$$/main.ts''"
  by code_simp

end
